theory Spec2Isabelle
  imports Main "HOL-Library.Word"
begin

unbundle bit_operations_syntax

section \<open>Machine types\<close>

text \<open>
  The embedding fixes the usual platform of the module: \<open>int\<close> is a 32-bit two's
  complement integer (read with \<open>sint\<close>, compared with \<open>\<le>s\<close> and \<open><s\<close>),
  \<open>char\<close> is a signed 8-bit byte, \<open>sqlite3_uint64\<close> is an unsigned 64-bit integer.
  Signed overflow, which C leaves undefined, wraps around in the model.
  \<open>SIZE_MAX\<close> of \<open><stdint.h>\<close> is not fixed: the functions that compute with
  \<open>size_t\<close> take it as a parameter and compute on \<open>nat\<close> modulo \<open>SIZE_MAX + 1\<close>.
\<close>

type_synonym c_int = "32 word"
type_synonym c_char = "8 word"
type_synonym sqlite3_uint64 = "64 word"

section \<open>The parameter map encoding\<close>

text \<open>
  \<open>param_idx_size = (sizeof(int)*CHAR_BIT+5)/6\<close> with \<open>sizeof(int) = 4\<close> and
  \<open>CHAR_BIT = 8\<close>.
\<close>

definition param_idx_size :: nat where
  "param_idx_size = (4 * 8 + 5) div 6"

text \<open>
  The byte \<open>((param_idx >> 6*j) & 63) + 33\<close>, computed in \<open>int\<close> and stored
  into a \<open>char\<close>; \<open>>>\<close> on a signed \<open>int\<close> is the arithmetic shift.
\<close>

definition encode_byte :: "c_int \<Rightarrow> nat \<Rightarrow> c_char" where
  "encode_byte param_idx j = ucast ((signed_drop_bit (6 * j) param_idx AND 63) + 33)"

text \<open>
  The term \<open>(param_map[...] - 33) << 6*j\<close>: the \<open>char\<close> is promoted to \<open>int\<close>
  (sign extended), then shifted left.
\<close>

definition decode_byte :: "c_char \<Rightarrow> nat \<Rightarrow> c_int" where
  "decode_byte c j = push_bit (6 * j) (scast c - 33)"

text \<open>
  \<open>encode_param_idx(i, param_map, param_idx)\<close> writes the bytes
  \<open>param_map[i*param_idx_size + j]\<close> for \<open>j = 0, ..., param_idx_size - 1\<close>.
  The buffer is a list of bytes and the function returns the updated buffer. The result
  is \<open>None\<close> where the C function has no defined result: the assertion
  \<open>param_idx >= 0\<close> fails, or a write falls outside the buffer. The slot number
  \<open>i\<close> is a loop counter of the callers that starts at 0 and only grows, hence a
  \<open>nat\<close>.
\<close>

definition encode_step :: "nat \<Rightarrow> c_int \<Rightarrow> nat \<Rightarrow> c_char list option \<Rightarrow> c_char list option" where
  "encode_step i param_idx j acc =
     (case acc of
        None \<Rightarrow> None
      | Some param_map \<Rightarrow>
          if i * param_idx_size + j < length param_map
          then Some (param_map[i * param_idx_size + j := encode_byte param_idx j])
          else None)"

definition encode_param_idx :: "nat \<Rightarrow> c_char list \<Rightarrow> c_int \<Rightarrow> c_char list option" where
  "encode_param_idx i param_map param_idx =
     (if 0 \<le>s param_idx
      then fold (encode_step i param_idx) [0..<param_idx_size] (Some param_map)
      else None)"

text \<open>
  \<open>decode_param_idx(i, param_map)\<close> ors the decoded groups of slot \<open>i\<close> into
  \<open>param_idx\<close>, starting from 0. \<open>None\<close>: a read falls outside the buffer.
\<close>

definition decode_step :: "nat \<Rightarrow> c_char list \<Rightarrow> nat \<Rightarrow> c_int option \<Rightarrow> c_int option" where
  "decode_step i param_map j acc =
     (case acc of
        None \<Rightarrow> None
      | Some param_idx \<Rightarrow>
          if i * param_idx_size + j < length param_map
          then Some (param_idx OR decode_byte (param_map ! (i * param_idx_size + j)) j)
          else None)"

definition decode_param_idx :: "nat \<Rightarrow> c_char list \<Rightarrow> c_int option" where
  "decode_param_idx i param_map =
     fold (decode_step i param_map) [0..<param_idx_size] (Some 0)"

text \<open>The printable characters of ASCII, as \<open>isprint\<close> has them in the C locale.\<close>

definition printable :: "c_char \<Rightarrow> bool" where
  "printable c \<longleftrightarrow> 0x20 \<le> c \<and> c \<le> 0x7E"

section \<open>Constants of the host interface\<close>

text \<open>
  Result codes and constraint operators of \<open>sqlite3.h\<close>, which the module includes and
  which are not part of its source: the values are those of the SQLite header.
\<close>

abbreviation SQLITE_OK :: c_int where "SQLITE_OK \<equiv> 0"
abbreviation SQLITE_ERROR :: c_int where "SQLITE_ERROR \<equiv> 1"
abbreviation SQLITE_NOMEM :: c_int where "SQLITE_NOMEM \<equiv> 7"
abbreviation SQLITE_CONSTRAINT :: c_int where "SQLITE_CONSTRAINT \<equiv> 19"
abbreviation SQLITE_MISUSE :: c_int where "SQLITE_MISUSE \<equiv> 21"
abbreviation SQLITE_RANGE :: c_int where "SQLITE_RANGE \<equiv> 25"
abbreviation SQLITE_ROW :: c_int where "SQLITE_ROW \<equiv> 100"
abbreviation SQLITE_DONE :: c_int where "SQLITE_DONE \<equiv> 101"

abbreviation SQLITE_INDEX_CONSTRAINT_EQ :: "8 word" where "SQLITE_INDEX_CONSTRAINT_EQ \<equiv> 2"
abbreviation SQLITE_INDEX_CONSTRAINT_GT :: "8 word" where "SQLITE_INDEX_CONSTRAINT_GT \<equiv> 4"
abbreviation SQLITE_INDEX_CONSTRAINT_LT :: "8 word" where "SQLITE_INDEX_CONSTRAINT_LT \<equiv> 16"
abbreviation SQLITE_INDEX_CONSTRAINT_LIMIT :: "8 word" where "SQLITE_INDEX_CONSTRAINT_LIMIT \<equiv> 73"
abbreviation SQLITE_INDEX_CONSTRAINT_OFFSET :: "8 word" where "SQLITE_INDEX_CONSTRAINT_OFFSET \<equiv> 74"

section \<open>The virtual table and the planner\<close>

text \<open>
  \<open>struct statement_vtab\<close>. The field \<open>zErrMsg\<close> is the one of the embedded
  \<open>sqlite3_vtab base\<close>; \<open>sql_len\<close> is the length of \<open>sql\<close>; the connection
  \<open>db\<close> is kept by the host.
\<close>

record statement_vtab =
  zErrMsg :: "string option"
  sql :: string
  num_inputs :: c_int
  num_outputs :: c_int

text \<open>
  The entries of \<open>sqlite3_index_info\<close> that the planner reads and writes.
  \<open>op\<close> and \<open>usable\<close> are \<open>unsigned char\<close>; \<open>nConstraint\<close> is the length of
  the list \<open>aConstraint\<close>, and the host passes an array \<open>aConstraintUsage\<close> of the
  same length. \<open>estimatedCost\<close> is a \<open>double\<close> that only ever holds the integer 1.
\<close>

record sqlite3_index_constraint =
  iColumn :: c_int
  op :: "8 word"
  usable :: "8 word"

record sqlite3_index_constraint_usage =
  argvIndex :: c_int
  omit :: "8 word"

record sqlite3_index_info =
  aConstraint :: "sqlite3_index_constraint list"
  aConstraintUsage :: "sqlite3_index_constraint_usage list"
  idxStr :: "c_char list option"
  needToFreeIdxStr :: c_int
  orderByConsumed :: c_int
  estimatedCost :: int
  estimatedRows :: "64 word"

text \<open>
  The local variables of the first loop of \<open>statement_vtab_best_index\<close>, together
  with the usage array it writes. \<open>rejected\<close> records that the loop has left the
  function with \<open>return SQLITE_CONSTRAINT\<close>: no later iteration does anything.
\<close>

record scan_state =
  rejected :: bool
  usage :: "sqlite3_index_constraint_usage list"
  col_max :: c_int
  used_cols :: sqlite3_uint64
  out_constraints :: c_int

text \<open>The body of the first loop at index \<open>i\<close>.\<close>

definition scan_constraint ::
  "c_int \<Rightarrow> sqlite3_index_constraint list \<Rightarrow> nat \<Rightarrow> scan_state \<Rightarrow> scan_state" where
  "scan_constraint n_out cs i s =
     (if rejected s then s
      else if op (cs ! i) = SQLITE_INDEX_CONSTRAINT_LIMIT
              \<or> op (cs ! i) = SQLITE_INDEX_CONSTRAINT_OFFSET
              \<or> iColumn (cs ! i) <s n_out
      then s
      else if usable (cs ! i) = 0 \<or> op (cs ! i) \<noteq> SQLITE_INDEX_CONSTRAINT_EQ
      then s\<lparr>rejected := True\<rparr>
      else
        let col_index = iColumn (cs ! i) - n_out
        in s\<lparr>usage := (usage s)[i := (usage s ! i)\<lparr>argvIndex := col_index + 1, omit := 1\<rparr>],
              col_max := (if col_max s <s col_index + 1 then col_index + 1 else col_max s),
              used_cols := (if col_index <s 64
                            then used_cols s OR push_bit (unat col_index) 1
                            else used_cols s),
              out_constraints := out_constraints s + 1\<rparr>)"

text \<open>The first loop, run for \<open>n\<close> iterations from the initial values of its variables.\<close>

definition scan_init :: "sqlite3_index_constraint_usage list \<Rightarrow> scan_state" where
  "scan_init us = \<lparr>rejected = False, usage = us, col_max = 0, used_cols = 0, out_constraints = 0\<rparr>"

definition scan ::
  "c_int \<Rightarrow> sqlite3_index_constraint list \<Rightarrow> sqlite3_index_constraint_usage list \<Rightarrow> nat \<Rightarrow> scan_state" where
  "scan n_out cs us n = fold (scan_constraint n_out cs) [0..<n] (scan_init us)"

text \<open>
  The test after the first loop, with \<open>required_cols\<close> as the function computes it:
  \<open>(col_max < 64 ? 1ull << col_max : 0ull) - 1\<close>.
\<close>

definition direct_cond :: "scan_state \<Rightarrow> bool" where
  "direct_cond s \<longleftrightarrow> out_constraints s = 0
     \<or> (col_max s \<le>s 64
        \<and> used_cols s = (if col_max s <s 64 then push_bit (unat (col_max s)) 1 else 0) - 1
        \<and> out_constraints s = col_max s)"

text \<open>
  The state of the second loop: the usage array, the payload buffer (\<open>None\<close> once an
  access had no defined result) and \<open>constraint_idx\<close>.
\<close>

record map_state =
  m_usage :: "sqlite3_index_constraint_usage list"
  m_idxStr :: "c_char list option"
  constraint_idx :: nat

definition map_constraint :: "nat \<Rightarrow> map_state \<Rightarrow> map_state" where
  "map_constraint i s =
     (if argvIndex (m_usage s ! i) = 0 then s
      else
        s\<lparr>m_idxStr := (case m_idxStr s of
                          None \<Rightarrow> None
                        | Some buf \<Rightarrow> encode_param_idx (constraint_idx s) buf (argvIndex (m_usage s ! i))),
           m_usage := (m_usage s)[i := (m_usage s ! i)\<lparr>argvIndex := of_nat (constraint_idx s + 1)\<rparr>],
           constraint_idx := constraint_idx s + 1\<rparr>)"

text \<open>The second loop, run for \<open>n\<close> iterations on a fresh buffer.\<close>

definition map_init :: "sqlite3_index_constraint_usage list \<Rightarrow> c_char list \<Rightarrow> map_state" where
  "map_init us buf = \<lparr>m_usage = us, m_idxStr = Some buf, constraint_idx = 0\<rparr>"

definition mapping :: "sqlite3_index_constraint_usage list \<Rightarrow> c_char list \<Rightarrow> nat \<Rightarrow> map_state" where
  "mapping us buf n = fold map_constraint [0..<n] (map_init us buf)"

text \<open>The conversion \<open>(size_t)x\<close> of an \<open>int\<close>, for a given \<open>SIZE_MAX\<close>.\<close>

definition size_t_of_int :: "nat \<Rightarrow> c_int \<Rightarrow> nat" where
  "size_t_of_int SIZE_MAX x = nat (sint x mod (int SIZE_MAX + 1))"

text \<open>Decimal digits, as \<open>%d\<close> prints a non-negative number.\<close>

definition digit :: "nat \<Rightarrow> char" where
  "digit d = ''0123456789'' ! d"

fun decimal :: "nat \<Rightarrow> string" where
  "decimal n = (if n < 10 then [digit n] else decimal (n div 10) @ [digit (n mod 10)])"

definition format_d :: "c_int \<Rightarrow> string" where
  "format_d x = (if 0 \<le>s x then decimal (nat (sint x)) else CHR ''-'' # decimal (nat (- sint x)))"

text \<open>
  \<open>statement_vtab_best_index\<close>. The parameters that stand for the platform and the
  host: \<open>SIZE_MAX\<close>; \<open>sqlite3_malloc64\<close>, which maps the requested size to a fresh
  buffer of that size, with whatever contents, or to \<open>None\<close> (a NULL pointer);
  \<open>mprintf_ok\<close>, whether \<open>sqlite3_mprintf\<close> can allocate its result.
  The function returns the result code, the table (its \<open>zErrMsg\<close>) and the index
  info; \<open>None\<close> is an execution without a defined result (an assertion failure or
  an access outside the payload buffer).
\<close>

definition statement_vtab_best_index ::
  "nat \<Rightarrow> (nat \<Rightarrow> c_char list option) \<Rightarrow> bool \<Rightarrow> statement_vtab \<Rightarrow> sqlite3_index_info
   \<Rightarrow> (c_int \<times> statement_vtab \<times> sqlite3_index_info) option" where
  "statement_vtab_best_index SIZE_MAX sqlite3_malloc64 mprintf_ok pVTab index_info =
     (let base = index_info\<lparr>orderByConsumed := 0, estimatedCost := 1, estimatedRows := 1\<rparr>;
          s = scan (num_outputs pVTab) (aConstraint index_info) (aConstraintUsage index_info)
                (length (aConstraint index_info))
      in
      if rejected s then Some (SQLITE_CONSTRAINT, pVTab, base\<lparr>aConstraintUsage := usage s\<rparr>)
      else if direct_cond s then Some (SQLITE_OK, pVTab, base\<lparr>aConstraintUsage := usage s\<rparr>)
      else if (SIZE_MAX - 1) div param_idx_size < size_t_of_int SIZE_MAX (out_constraints s)
      then
        (if mprintf_ok
         then Some (SQLITE_ERROR,
                    pVTab\<lparr>zErrMsg := Some (''Too many constraints to index: '' @ format_d (out_constraints s))\<rparr>,
                    base\<lparr>aConstraintUsage := usage s\<rparr>)
         else Some (SQLITE_NOMEM, pVTab\<lparr>zErrMsg := None\<rparr>, base\<lparr>aConstraintUsage := usage s\<rparr>))
      else
        (case sqlite3_malloc64
                ((size_t_of_int SIZE_MAX (out_constraints s) * param_idx_size + 1) mod (SIZE_MAX + 1)) of
           None \<Rightarrow> Some (SQLITE_NOMEM, pVTab, base\<lparr>aConstraintUsage := usage s, idxStr := None\<rparr>)
         | Some buf \<Rightarrow>
             let m = mapping (usage s) buf (length (aConstraint index_info));
                 terminator = (size_t_of_int SIZE_MAX (out_constraints s) * param_idx_size) mod (SIZE_MAX + 1)
             in
             (case m_idxStr m of
                None \<Rightarrow> None
              | Some payload \<Rightarrow>
                  if terminator < length payload
                  then Some (SQLITE_OK, pVTab,
                             base\<lparr>aConstraintUsage := m_usage m,
                                  idxStr := Some (payload[terminator := 0]),
                                  needToFreeIdxStr := 1\<rparr>)
                  else None)))"

section \<open>Vocabulary for the planner's results\<close>

text \<open>
  The three ways the first loop treats a constraint, read off its two tests: it passes
  over the constraint (\<open>continue\<close>), it leaves with \<open>SQLITE_CONSTRAINT\<close>, or it
  accepts the constraint.
\<close>

definition skipped :: "c_int \<Rightarrow> sqlite3_index_constraint \<Rightarrow> bool" where
  "skipped n_out c \<longleftrightarrow>
     op c = SQLITE_INDEX_CONSTRAINT_LIMIT \<or> op c = SQLITE_INDEX_CONSTRAINT_OFFSET \<or> iColumn c <s n_out"

definition infeasible :: "c_int \<Rightarrow> sqlite3_index_constraint \<Rightarrow> bool" where
  "infeasible n_out c \<longleftrightarrow>
     \<not> skipped n_out c \<and> (usable c = 0 \<or> op c \<noteq> SQLITE_INDEX_CONSTRAINT_EQ)"

definition accepted :: "c_int \<Rightarrow> sqlite3_index_constraint \<Rightarrow> bool" where
  "accepted n_out c \<longleftrightarrow>
     \<not> skipped n_out c \<and> usable c \<noteq> 0 \<and> op c = SQLITE_INDEX_CONSTRAINT_EQ"

text \<open>
  The 0-based parameter index of a constraint, as a number, and the indices of the
  accepted constraints in the order of the array.
\<close>

definition col_index :: "c_int \<Rightarrow> sqlite3_index_constraint \<Rightarrow> nat" where
  "col_index n_out c = nat (sint (iColumn c) - sint n_out)"

definition col_indices :: "c_int \<Rightarrow> sqlite3_index_constraint list \<Rightarrow> nat list" where
  "col_indices n_out cs = map (col_index n_out) (filter (accepted n_out) cs)"

text \<open>
  The indices are exactly \<open>0, ..., n - 1\<close> for the number \<open>n\<close> of accepted
  constraints, and there are at most 64 of them.
\<close>

definition contiguous :: "nat list \<Rightarrow> bool" where
  "contiguous xs \<longleftrightarrow> length xs \<le> 64 \<and> set xs = {0..<length xs}"

abbreviation no_usage :: sqlite3_index_constraint_usage where
  "no_usage \<equiv> \<lparr>argvIndex = 0, omit = 0\<rparr>"

text \<open>
  The usage array of a direct plan: an accepted constraint gets the argv position
  \<open>col_index + 1\<close> and is omitted from the host's own checks, any other entry stays
  zero.
\<close>

definition direct_entry :: "c_int \<Rightarrow> sqlite3_index_constraint \<Rightarrow> sqlite3_index_constraint_usage" where
  "direct_entry n_out c =
     (if accepted n_out c then \<lparr>argvIndex = iColumn c - n_out + 1, omit = 1\<rparr> else no_usage)"

definition direct_usage :: "c_int \<Rightarrow> sqlite3_index_constraint list \<Rightarrow> sqlite3_index_constraint_usage list" where
  "direct_usage n_out cs = map (direct_entry n_out) cs"

text \<open>
  The usage array and the payload of a mapped plan. \<open>rank n_out cs i\<close> counts the
  accepted constraints before position \<open>i\<close>; \<open>targets\<close> lists \<open>col_index + 1\<close> of
  the accepted constraints in the order of the array; \<open>encode_all\<close> concatenates their
  encodings, and the payload ends with NUL.
\<close>

definition rank :: "c_int \<Rightarrow> sqlite3_index_constraint list \<Rightarrow> nat \<Rightarrow> nat" where
  "rank n_out cs i = length (filter (accepted n_out) (take i cs))"

definition mapped_usage :: "c_int \<Rightarrow> sqlite3_index_constraint list \<Rightarrow> sqlite3_index_constraint_usage list" where
  "mapped_usage n_out cs =
     map (\<lambda>i. if accepted n_out (cs ! i)
              then \<lparr>argvIndex = of_nat (rank n_out cs i + 1), omit = 1\<rparr>
              else no_usage) [0..<length cs]"

definition targets :: "c_int \<Rightarrow> sqlite3_index_constraint list \<Rightarrow> c_int list" where
  "targets n_out cs = map (\<lambda>c. iColumn c - n_out + 1) (filter (accepted n_out) cs)"

definition encode_all :: "c_int list \<Rightarrow> c_char list" where
  "encode_all ts = concat (map (\<lambda>t. map (encode_byte t) [0..<6]) ts)"

definition mapped_payload :: "c_int \<Rightarrow> sqlite3_index_constraint list \<Rightarrow> c_char list" where
  "mapped_payload n_out cs = encode_all (targets n_out cs) @ [0]"

text \<open>An entry of the usage array that the second loop treats as bound.\<close>

definition bound :: "sqlite3_index_constraint_usage \<Rightarrow> bool" where
  "bound u \<longleftrightarrow> argvIndex u \<noteq> 0"

text \<open>The assignments of the first loop for an accepted constraint at index \<open>i\<close>.\<close>

definition accept_step :: "c_int \<Rightarrow> sqlite3_index_constraint \<Rightarrow> nat \<Rightarrow> scan_state \<Rightarrow> scan_state" where
  "accept_step n_out c i s =
      s\<lparr>usage := (usage s)[i := (usage s ! i)\<lparr>argvIndex := iColumn c - n_out + 1, omit := 1\<rparr>],
        col_max := (if col_max s <s iColumn c - n_out + 1 then iColumn c - n_out + 1 else col_max s),
        used_cols := (if iColumn c - n_out <s 64
                      then used_cols s OR push_bit (unat (iColumn c - n_out)) 1
                      else used_cols s),
        out_constraints := out_constraints s + 1\<rparr>"

text \<open>
  What the host guarantees when it calls \<open>xBestIndex\<close>: the table has a non-negative
  number of result columns; both arrays have \<open>nConstraint\<close> entries, an \<open>int\<close>;
  no column number is \<open>INT_MAX\<close> (SQLite limits a table to at most 32767 columns);
  the usage array, \<open>idxStr\<close> and \<open>needToFreeIdxStr\<close> are zeroed.
\<close>

definition planner_input :: "statement_vtab \<Rightarrow> sqlite3_index_info \<Rightarrow> bool" where
  "planner_input pVTab index_info \<longleftrightarrow>
     0 \<le>s num_outputs pVTab
     \<and> length (aConstraint index_info) < 2147483648
     \<and> list_all (\<lambda>c. iColumn c <s 0x7FFFFFFF) (aConstraint index_info)
     \<and> aConstraintUsage index_info = replicate (length (aConstraint index_info)) no_usage
     \<and> idxStr index_info = None
     \<and> needToFreeIdxStr index_info = 0"

section \<open>The host's prepared statements\<close>

text \<open>
  Modelled from the spec: the statement interface of the host (\<open>sqlite3_reset\<close>,
  \<open>sqlite3_clear_bindings\<close>, \<open>sqlite3_bind_value\<close>, \<open>sqlite3_step\<close>,
  \<open>sqlite3_column_value\<close>, \<open>sqlite3_stmt_busy\<close> and the functions that inspect a
  statement), which the module calls and which is not part of its source. The spec asks
  of the host: read-only-statement introspection, result-column name and declared-type
  introspection, bind-parameter count and name introspection, value binding by position
  preserving type, and single-step execution with row, done and error outcomes.

  A value carries its type. A prepared statement has its result columns, each with a
  name and a declared type (either may be absent); its parameters \<open>1, ..., n\<close>, each
  with its name as written in the statement, marker character first (absent for a
  nameless parameter), and the value bound to it; its compiled program, a function from
  the bound values to the rows it produces and the code that follows the last row
  (\<open>SQLITE_DONE\<close> or an error code); its execution state, \<open>None\<close> while it is not
  running and otherwise the rows still to come with the final code; and the current row.
\<close>

datatype sqlite3_value =
  SQL_NULL | SQL_INTEGER "64 word" | SQL_FLOAT "64 word" | SQL_TEXT string | SQL_BLOB "8 word list"

record sqlite3_stmt =
  readonly :: bool
  columns :: "(string option \<times> string option) list"
  parameters :: "(string option \<times> sqlite3_value) list"
  program :: "sqlite3_value list \<Rightarrow> sqlite3_value list list \<times> c_int"
  exec :: "(sqlite3_value list list \<times> c_int) option"
  row :: "sqlite3_value list option"

definition bindings :: "sqlite3_stmt \<Rightarrow> sqlite3_value list" where
  "bindings s = map snd (parameters s)"

definition sqlite3_stmt_readonly :: "sqlite3_stmt \<Rightarrow> bool" where
  "sqlite3_stmt_readonly s = readonly s"

definition sqlite3_column_count :: "sqlite3_stmt \<Rightarrow> c_int" where
  "sqlite3_column_count s = of_nat (length (columns s))"

definition sqlite3_column_name :: "sqlite3_stmt \<Rightarrow> c_int \<Rightarrow> string option" where
  "sqlite3_column_name s i =
     (if 0 \<le>s i \<and> nat (sint i) < length (columns s) then fst (columns s ! nat (sint i)) else None)"

definition sqlite3_column_decltype :: "sqlite3_stmt \<Rightarrow> c_int \<Rightarrow> string option" where
  "sqlite3_column_decltype s i =
     (if 0 \<le>s i \<and> nat (sint i) < length (columns s) then snd (columns s ! nat (sint i)) else None)"

definition sqlite3_bind_parameter_count :: "sqlite3_stmt \<Rightarrow> c_int" where
  "sqlite3_bind_parameter_count s = of_nat (length (parameters s))"

definition sqlite3_bind_parameter_name :: "sqlite3_stmt \<Rightarrow> c_int \<Rightarrow> string option" where
  "sqlite3_bind_parameter_name s i =
     (if 1 \<le>s i \<and> nat (sint i) \<le> length (parameters s) then fst (parameters s ! (nat (sint i) - 1)) else None)"

definition sqlite3_reset :: "sqlite3_stmt \<Rightarrow> sqlite3_stmt" where
  "sqlite3_reset s = s\<lparr>exec := None, row := None\<rparr>"

definition sqlite3_clear_bindings :: "sqlite3_stmt \<Rightarrow> sqlite3_stmt" where
  "sqlite3_clear_bindings s = s\<lparr>parameters := map (\<lambda>p. (fst p, SQL_NULL)) (parameters s)\<rparr>"

definition sqlite3_stmt_busy :: "sqlite3_stmt \<Rightarrow> bool" where
  "sqlite3_stmt_busy s \<longleftrightarrow> exec s \<noteq> None"

definition sqlite3_bind_value :: "sqlite3_stmt \<Rightarrow> c_int \<Rightarrow> sqlite3_value \<Rightarrow> c_int \<times> sqlite3_stmt" where
  "sqlite3_bind_value s idx v =
     (if sqlite3_stmt_busy s then (SQLITE_MISUSE, s)
      else if 1 \<le>s idx \<and> nat (sint idx) \<le> length (parameters s)
      then (SQLITE_OK,
            s\<lparr>parameters := (parameters s)[nat (sint idx) - 1 := (fst (parameters s ! (nat (sint idx) - 1)), v)]\<rparr>)
      else (SQLITE_RANGE, s))"

definition sqlite3_step :: "sqlite3_stmt \<Rightarrow> c_int \<times> sqlite3_stmt" where
  "sqlite3_step s =
     (case (case exec s of None \<Rightarrow> program s (bindings s) | Some pending \<Rightarrow> pending) of
        (r # rs, final) \<Rightarrow> (SQLITE_ROW, s\<lparr>exec := Some (rs, final), row := Some r\<rparr>)
      | ([], final) \<Rightarrow> (final, s\<lparr>exec := None, row := None\<rparr>))"

definition sqlite3_column_value :: "sqlite3_stmt \<Rightarrow> c_int \<Rightarrow> sqlite3_value" where
  "sqlite3_column_value s i =
     (case row s of
        None \<Rightarrow> SQL_NULL
      | Some r \<Rightarrow> if 0 \<le>s i \<and> nat (sint i) < length r then r ! nat (sint i) else SQL_NULL)"

section \<open>The declared schema\<close>

text \<open>
  Modelled from the spec: the host's string builder (\<open>sqlite3_str_appendf\<close>), which is
  not part of the module's source. The conversion \<open>%Q\<close> of a string that is not NULL
  writes it between single quotes and doubles each single quote inside it, so that the
  name is taken literally.
\<close>

definition quote_char :: char where
  "quote_char = CHR 0x27"

definition fmt_Q :: "string \<Rightarrow> string" where
  "fmt_Q s = quote_char # concat (map (\<lambda>c. if c = quote_char then [c, c] else [c]) s) @ [quote_char]"

text \<open>
  The body of the first loop of \<open>build_create_statement\<close> at index \<open>i\<close>, on the text
  \<open>str\<close> built so far (the variable \<open>sql\<close> of the source); \<open>None\<close> once the function has returned NULL for a column without a name.
\<close>

definition column_step :: "sqlite3_stmt \<Rightarrow> nat \<Rightarrow> string option \<Rightarrow> string option" where
  "column_step stmt i acc =
     (case acc of
        None \<Rightarrow> None
      | Some str \<Rightarrow>
          (case sqlite3_column_name stmt (of_nat i) of
             None \<Rightarrow> None
           | Some name \<Rightarrow>
               Some (str @ fmt_Q name @ '' ''
                     @ (case sqlite3_column_decltype stmt (of_nat i) of None \<Rightarrow> [] | Some decltype \<Rightarrow> decltype)
                     @ '','')))"

text \<open>
  The body of the second loop at index \<open>i\<close>. \<open>name+1\<close> is the name without its first
  character, the marker; the host gives no empty name.
\<close>

definition param_step :: "sqlite3_stmt \<Rightarrow> nat \<Rightarrow> string \<Rightarrow> string" where
  "param_step stmt i str =
     (case sqlite3_bind_parameter_name stmt (of_nat i + 1) of
        Some name \<Rightarrow> str @ fmt_Q (tl name) @ '' hidden,''
      | None \<Rightarrow> str @ [quote_char] @ format_d (of_nat i + 1) @ [quote_char] @ '' hidden,'')"

text \<open>
  \<open>build_create_statement\<close>. \<open>None\<close> is the result NULL. \<open>str_ok\<close> tells whether
  the host could allocate the string: \<open>sqlite3_str_finish\<close> returns NULL when it could
  not.
\<close>

definition build_create_statement :: "bool \<Rightarrow> sqlite3_stmt \<Rightarrow> string option" where
  "build_create_statement str_ok stmt =
     (case fold (column_step stmt) [0..<nat (sint (sqlite3_column_count stmt))] (Some ''CREATE TABLE x( '') of
        None \<Rightarrow> None
      | Some str \<Rightarrow>
          (let str = fold (param_step stmt) [0..<nat (sint (sqlite3_bind_parameter_count stmt))] str;
               str = (if length str \<noteq> 0 then str[length str - 1 := CHR '')''] else str)
           in if str_ok then Some str else None))"

text \<open>
  The schema in the words of the specification: the result columns in the order of the
  statement, each with its name and its declared type, empty when absent; then one
  hidden column for each parameter in the order of the parameters, named by the
  parameter's name without its first character, or by its position, counted from 1, in
  decimal. \<open>render_schema\<close> is the text that declares such a list of columns.
\<close>

datatype column_decl = Output string string | Hidden string

definition schema_of :: "sqlite3_stmt \<Rightarrow> column_decl list" where
  "schema_of stmt =
     map (\<lambda>c. Output (case fst c of None \<Rightarrow> [] | Some name \<Rightarrow> name)
                      (case snd c of None \<Rightarrow> [] | Some decltype \<Rightarrow> decltype)) (columns stmt)
     @ map (\<lambda>i. Hidden (case fst (parameters stmt ! i) of
                           Some name \<Rightarrow> tl name
                         | None \<Rightarrow> decimal (i + 1))) [0..<length (parameters stmt)]"

fun render_column :: "column_decl \<Rightarrow> string" where
  "render_column (Output name decltype) = fmt_Q name @ '' '' @ decltype"
| "render_column (Hidden name) = fmt_Q name @ '' hidden''"

definition render_schema :: "column_decl list \<Rightarrow> string" where
  "render_schema ds =
     ''CREATE TABLE x('' @ butlast ('' '' @ concat (map (\<lambda>d. render_column d @ '','') ds)) @ '')''"

section \<open>Creating the table\<close>

text \<open>
  Modelled from the spec: the host's connection as \<open>statement_vtab_create\<close> uses it,
  which is not part of the module's source. \<open>prepare_v2\<close> stands for
  \<open>sqlite3_prepare_v2\<close> on a statement text and \<open>declare_vtab\<close> for
  \<open>sqlite3_declare_vtab\<close> on a schema text; each gives its result code and the message
  that \<open>sqlite3_errmsg\<close> returns after the call, and \<open>prepare_v2\<close> gives the
  statement, NULL when there is none. \<open>null_stmt\<close> is what the host's functions answer
  for a NULL statement: read only, no columns, no parameters.
\<close>

record sqlite3 =
  prepare_v2 :: "string \<Rightarrow> c_int \<times> sqlite3_stmt option \<times> string"
  declare_vtab :: "string \<Rightarrow> c_int \<times> string"

definition null_stmt :: sqlite3_stmt where
  "null_stmt =
     \<lparr>readonly = True, columns = [], parameters = [], program = (\<lambda>vs. ([], SQLITE_MISUSE)),
      exec = None, row = None\<rparr>"

text \<open>
  Which allocations of a call succeed: the message for \<open>*pzErr\<close>
  (\<open>sqlite3_mprintf\<close>), the table structure (\<open>sqlite3_malloc64\<close>), the copy of the
  statement text (\<open>sqlite3_mprintf\<close>) and the schema text (\<open>sqlite3_str\<close>).
\<close>

record allocs =
  err_alloc :: bool
  vtab_alloc :: bool
  sql_alloc :: bool
  str_alloc :: bool

text \<open>
  What a call allocates and has to release: the table structure \<open>vtab\<close>, its
  statement text \<open>vtab->sql\<close>, the compiled statement \<open>stmt\<close> and the schema text
  \<open>create\<close>. \<open>live\<close> lists those allocated and not yet released.
\<close>

datatype resource = Vtab | Sql | Stmt | Create

text \<open>
  The outcome of \<open>statement_vtab_create\<close>: the return value, \<open>*ppVtab\<close> and
  \<open>*pzErr\<close>, both NULL when the host calls, and the allocations of the call that are
  still live.
\<close>

record create_state =
  retval :: c_int
  ppVtab :: "statement_vtab option"
  pzErr :: "string option"
  live :: "resource list"

text \<open>
  The code from the label \<open>error:\<close> on: it frees \<open>create\<close>, finalizes \<open>stmt\<close>,
  destroys the table, which frees its text and its structure, and sets \<open>*ppVtab\<close> to
  NULL.
\<close>

definition error_exit :: "c_int \<Rightarrow> string option \<Rightarrow> resource list \<Rightarrow> create_state" where
  "error_exit r msg lv =
     \<lparr>retval = r, ppVtab = None, pzErr = msg,
      live = removeAll Vtab (removeAll Sql (removeAll Stmt (removeAll Create lv)))\<rparr>"

text \<open>The code from the label \<open>sqlite_error:\<close> on, with the host's message \<open>msg\<close>.\<close>

definition sqlite_error_exit :: "allocs \<Rightarrow> c_int \<Rightarrow> string \<Rightarrow> resource list \<Rightarrow> create_state" where
  "sqlite_error_exit al r msg lv =
     (if err_alloc al then error_exit r (Some msg) lv else error_exit SQLITE_NOMEM None lv)"

text \<open>
  \<open>statement_vtab_create\<close>. \<open>argc\<close> is the length of the list \<open>argv\<close>, whose
  entry 3 is the first argument of the module.
\<close>

definition statement_vtab_create :: "sqlite3 \<Rightarrow> allocs \<Rightarrow> string list \<Rightarrow> create_state" where
  "statement_vtab_create db al argv =
     (if length argv < 4 \<or> length (argv ! 3) < 3
      then (if err_alloc al
            then \<lparr>retval = SQLITE_MISUSE, ppVtab = None, pzErr = Some ''no statement provided'', live = []\<rparr>
            else \<lparr>retval = SQLITE_NOMEM, ppVtab = None, pzErr = None, live = []\<rparr>)
      else if argv ! 3 ! 0 \<noteq> CHR ''('' \<or> argv ! 3 ! (length (argv ! 3) - 1) \<noteq> CHR '')''
      then (if err_alloc al
            then \<lparr>retval = SQLITE_MISUSE, ppVtab = None, pzErr = Some ''statement must be parenthesized'',
                  live = []\<rparr>
            else \<lparr>retval = SQLITE_NOMEM, ppVtab = None, pzErr = None, live = []\<rparr>)
      else if \<not> vtab_alloc al
      then \<lparr>retval = SQLITE_NOMEM, ppVtab = None, pzErr = None, live = []\<rparr>
      else if \<not> sql_alloc al then error_exit SQLITE_NOMEM None [Vtab]
      else
        (let zSql = take (length (argv ! 3) - 2) (drop 1 (argv ! 3))
         in case prepare_v2 db zSql of
              (r, pStmt, msg) \<Rightarrow>
                (let lv = [Vtab, Sql] @ (case pStmt of None \<Rightarrow> [] | Some s \<Rightarrow> [Stmt]);
                     st = (case pStmt of None \<Rightarrow> null_stmt | Some s \<Rightarrow> s)
                 in if r \<noteq> SQLITE_OK then sqlite_error_exit al r msg lv
                    else if \<not> sqlite3_stmt_readonly st
                    then (if err_alloc al
                          then error_exit SQLITE_ERROR (Some ''Statement must be read only.'') lv
                          else error_exit SQLITE_NOMEM None lv)
                    else
                      (case build_create_statement (str_alloc al) st of
                         None \<Rightarrow> error_exit SQLITE_NOMEM None lv
                       | Some create \<Rightarrow>
                           (case declare_vtab db create of
                              (r, msg) \<Rightarrow>
                                if r \<noteq> SQLITE_OK then sqlite_error_exit al r msg (lv @ [Create])
                                else \<lparr>retval = SQLITE_OK,
                                      ppVtab = Some \<lparr>zErrMsg = None, sql = zSql,
                                                     num_inputs = sqlite3_bind_parameter_count st,
                                                     num_outputs = sqlite3_column_count st\<rparr>,
                                      pzErr = None,
                                      live = removeAll Stmt (removeAll Create (lv @ [Create]))\<rparr>)))))"

section \<open>The cursor\<close>

text \<open>
  \<open>struct statement_cursor\<close>. \<open>pVtab\<close> is the table of the embedded
  \<open>sqlite3_vtab_cursor base\<close>; \<open>param_argv\<close> is the buffer that \<open>statement_vtab_open\<close>
  allocates, a list of its entries.
\<close>

record statement_cursor =
  pVtab :: statement_vtab
  stmt :: sqlite3_stmt
  rowid :: c_int
  param_argc :: c_int
  param_argv :: "sqlite3_value list"

text \<open>
  The expression \<open>idxStr ? decode_param_idx(i,idxStr) : i+1\<close> of
  \<open>statement_vtab_filter\<close>; \<open>None\<close> when decoding reads outside the payload.
\<close>

definition param_idx_of :: "c_char list option \<Rightarrow> nat \<Rightarrow> c_int option" where
  "param_idx_of idx_str i =
     (case idx_str of None \<Rightarrow> Some (of_nat i + 1) | Some param_map \<Rightarrow> decode_param_idx i param_map)"

text \<open>
  The binding loop of \<open>statement_vtab_filter\<close> from index \<open>i\<close> on, over the arguments
  \<open>argv[i], argv[i+1], ...\<close> that are left. It returns the code of the first binding that
  fails, or \<open>SQLITE_OK\<close>, with the statement.
\<close>

fun bind_args :: "c_char list option \<Rightarrow> sqlite3_value list \<Rightarrow> nat \<Rightarrow> sqlite3_stmt
    \<Rightarrow> (c_int \<times> sqlite3_stmt) option" where
  "bind_args idx_str [] i s = Some (SQLITE_OK, s)"
| "bind_args idx_str (v # vs) i s =
     (case param_idx_of idx_str i of
        None \<Rightarrow> None
      | Some param_idx \<Rightarrow>
          (case sqlite3_bind_value s param_idx v of
             (ret, s') \<Rightarrow> if ret \<noteq> SQLITE_OK then Some (ret, s') else bind_args idx_str vs (i + 1) s'))"

text \<open>
  \<open>statement_vtab_filter\<close>. \<open>argc\<close> is the length of the list \<open>argv\<close>. \<open>None\<close>: the
  assertion \<open>num_inputs >= argc\<close> fails, the copy into \<open>param_argv\<close> leaves the buffer,
  or decoding leaves the payload.
\<close>

definition statement_vtab_filter ::
  "statement_cursor \<Rightarrow> c_int \<Rightarrow> c_char list option \<Rightarrow> sqlite3_value list
   \<Rightarrow> (c_int \<times> statement_cursor) option" where
  "statement_vtab_filter cur idxNum idx_str argv =
     (let argc = of_nat (length argv) :: c_int;
          stmtcur = cur\<lparr>rowid := 1\<rparr>;
          s = sqlite3_clear_bindings (sqlite3_reset (stmt stmtcur))
      in case bind_args idx_str argv 0 s of
           None \<Rightarrow> None
         | Some (ret, s) \<Rightarrow>
             if ret \<noteq> SQLITE_OK then Some (ret, stmtcur\<lparr>stmt := s\<rparr>)
             else
               (case sqlite3_step s of
                  (ret, s) \<Rightarrow>
                    if \<not> (ret = SQLITE_ROW \<or> ret = SQLITE_DONE) then Some (ret, stmtcur\<lparr>stmt := s\<rparr>)
                    else if \<not> (argc \<le>s num_inputs (pVtab stmtcur)) then None
                    else if argc = 0
                    then Some (SQLITE_OK, stmtcur\<lparr>stmt := s, param_argc := argc\<rparr>)
                    else if length (param_argv stmtcur) < length argv then None
                    else Some (SQLITE_OK,
                               stmtcur\<lparr>stmt := s, param_argc := argc,
                                 param_argv := argv @ drop (length argv) (param_argv stmtcur)\<rparr>)))"

text \<open>
  \<open>statement_vtab_next\<close>. \<open>rowid++\<close> is the addition of \<open>int\<close>, which wraps here
  where C leaves the overflow undefined, after \<open>INT_MAX\<close> rows.
\<close>

definition statement_vtab_next :: "statement_cursor \<Rightarrow> c_int \<times> statement_cursor" where
  "statement_vtab_next stmtcur =
     (case sqlite3_step (stmt stmtcur) of
        (ret, s) \<Rightarrow>
          if ret = SQLITE_ROW then (SQLITE_OK, stmtcur\<lparr>stmt := s, rowid := rowid stmtcur + 1\<rparr>)
          else (if ret = SQLITE_DONE then SQLITE_OK else ret, stmtcur\<lparr>stmt := s\<rparr>))"



text \<open>
  \<open>statement_vtab_column\<close>: the result code and the value handed to
  \<open>sqlite3_result_value\<close>, \<open>None\<close> when the function sets no result. The outer \<open>None\<close> is a
  read outside \<open>param_argv\<close>.
\<close>

definition statement_vtab_column :: "statement_cursor \<Rightarrow> c_int \<Rightarrow> (c_int \<times> sqlite3_value option) option" where
  "statement_vtab_column stmtcur i =
     (let n_out = num_outputs (pVtab stmtcur)
      in if i <s n_out then Some (SQLITE_OK, Some (sqlite3_column_value (stmt stmtcur) i))
         else if i - n_out <s param_argc stmtcur
         then (if 0 \<le>s i - n_out \<and> nat (sint (i - n_out)) < length (param_argv stmtcur)
               then Some (SQLITE_OK, Some (param_argv stmtcur ! nat (sint (i - n_out))))
               else None)
         else Some (SQLITE_OK, None))"

section \<open>Vocabulary for the cursor's results\<close>






text \<open>
  The cursor retains the arguments \<open>argv\<close>: \<open>param_argc\<close> is their number and
  \<open>param_argv\<close> starts with them.
\<close>

definition retains :: "statement_cursor \<Rightarrow> sqlite3_value list \<Rightarrow> bool" where
  "retains cur argv \<longleftrightarrow>
     length argv < 2147483648
     \<and> param_argc cur = of_nat (length argv)
     \<and> length argv \<le> length (param_argv cur)
     \<and> take (length argv) (param_argv cur) = argv"


section \<open>Example inputs\<close>

text \<open>
  A table made from \<open>(select :x + :y + :z as r)\<close>: one result column, three
  parameters, so that column 0 is \<open>r\<close> and columns 1, 2, 3 are the hidden \<open>x\<close>,
  \<open>y\<close>, \<open>z\<close>. \<open>eq_constraint\<close> is a usable equality constraint on a column,
  \<open>lt_constraint\<close> a usable \<open><\<close> constraint, and \<open>fresh_index_info\<close> the index info
  as the host passes it for a list of constraints.
\<close>

definition example_vtab :: statement_vtab where
  "example_vtab = \<lparr>zErrMsg = None, sql = ''select :x + :y + :z as r'', num_inputs = 3, num_outputs = 1\<rparr>"

definition eq_constraint :: "c_int \<Rightarrow> sqlite3_index_constraint" where
  "eq_constraint col = \<lparr>iColumn = col, op = SQLITE_INDEX_CONSTRAINT_EQ, usable = 1\<rparr>"

definition lt_constraint :: "c_int \<Rightarrow> sqlite3_index_constraint" where
  "lt_constraint col = \<lparr>iColumn = col, op = SQLITE_INDEX_CONSTRAINT_LT, usable = 1\<rparr>"

definition fresh_index_info :: "sqlite3_index_constraint list \<Rightarrow> sqlite3_index_info" where
  "fresh_index_info cs =
     \<lparr>aConstraint = cs, aConstraintUsage = replicate (length cs) no_usage, idxStr = None,
      needToFreeIdxStr = 0, orderByConsumed = 0, estimatedCost = 0, estimatedRows = 0\<rparr>"

text \<open>An allocator that always succeeds and hands out buffers filled with \<open>0xAA\<close>.\<close>

definition example_malloc :: "nat \<Rightarrow> c_char list option" where
  "example_malloc n = Some (replicate n 0xAA)"

text \<open>
  A table made from \<open>(select :x as r union all select :y union all select :z)\<close>: one
  result column, three parameters, and one row for each parameter, holding its value.
  \<open>union_cursor\<close> is a cursor on it before its first \<open>xFilter\<close>; \<open>echo_cursor\<close> is
  that cursor after \<open>xFilter\<close> with the arguments \<open>5\<close> and \<open>'foo'\<close> and no payload;
  \<open>gap_payload\<close> is the payload of a mapped plan for the parameters 1 and 3, and
  \<open>gap_cursor\<close> the cursor after \<open>xFilter\<close> with that payload and the arguments
  \<open>7\<close> and \<open>9\<close>.
\<close>

definition union_vtab :: statement_vtab where
  "union_vtab = \<lparr>zErrMsg = None, sql = ''select :x as r union all select :y union all select :z'',
                  num_inputs = 3, num_outputs = 1\<rparr>"

definition union_stmt :: sqlite3_stmt where
  "union_stmt =
     \<lparr>readonly = True, columns = [(Some ''r'', None)],
      parameters = [(Some '':x'', SQL_NULL), (Some '':y'', SQL_NULL), (Some '':z'', SQL_NULL)],
      program = (\<lambda>vs. (map (\<lambda>v. [v]) vs, SQLITE_DONE)), exec = None, row = None\<rparr>"

definition union_cursor :: statement_cursor where
  "union_cursor =
     \<lparr>pVtab = union_vtab, stmt = union_stmt, rowid = 0, param_argc = 0,
      param_argv = [SQL_NULL, SQL_NULL, SQL_NULL]\<rparr>"

definition echo_cursor :: statement_cursor where
  "echo_cursor =
     \<lparr>pVtab = union_vtab,
      stmt = union_stmt
        \<lparr>parameters := [(Some '':x'', SQL_INTEGER 5), (Some '':y'', SQL_TEXT ''foo''), (Some '':z'', SQL_NULL)],
         exec := Some ([[SQL_TEXT ''foo''], [SQL_NULL]], SQLITE_DONE),
         row := Some [SQL_INTEGER 5]\<rparr>,
      rowid = 1, param_argc = 2,
      param_argv = [SQL_INTEGER 5, SQL_TEXT ''foo'', SQL_NULL]\<rparr>"



text \<open>
  A table made from \<open>(select abs(:x) as r)\<close>, whose step fails with \<open>SQLITE_ERROR\<close>
  on the least 64-bit integer. \<open>abs_cursor\<close> is a cursor on it after \<open>xFilter\<close>
  with the argument \<open>5\<close>.
\<close>

definition abs_vtab :: statement_vtab where
  "abs_vtab = \<lparr>zErrMsg = None, sql = ''select abs(:x) as r'', num_inputs = 1, num_outputs = 1\<rparr>"

definition abs_stmt :: sqlite3_stmt where
  "abs_stmt =
     \<lparr>readonly = True, columns = [(Some ''r'', None)],
      parameters = [(Some '':x'', SQL_NULL)],
      program = (\<lambda>vs. case vs of
                   [SQL_INTEGER x] \<Rightarrow>
                     if x = 0x8000000000000000 then ([], SQLITE_ERROR)
                     else ([[SQL_INTEGER (if x <s 0 then - x else x)]], SQLITE_DONE)
                 | _ \<Rightarrow> ([[SQL_NULL]], SQLITE_DONE)),
      exec = None, row = None\<rparr>"

definition abs_cursor :: statement_cursor where
  "abs_cursor =
     \<lparr>pVtab = abs_vtab,
      stmt = abs_stmt\<lparr>parameters := [(Some '':x'', SQL_INTEGER 5)],
                      exec := Some ([], SQLITE_DONE), row := Some [SQL_INTEGER 5]\<rparr>,
      rowid = 1, param_argc = 1, param_argv = [SQL_INTEGER 5]\<rparr>"

text \<open>
  The statement \<open>select a, b from t where c = :x and d = :y\<close> over a table whose column
  \<open>a\<close> is declared \<open>INT\<close> and whose column \<open>b\<close> has no declared type, and the
  statement \<open>select ?\<close> with its nameless parameter.
\<close>

definition ab_stmt :: sqlite3_stmt where
  "ab_stmt =
     \<lparr>readonly = True, columns = [(Some ''a'', Some ''INT''), (Some ''b'', None)],
      parameters = [(Some '':x'', SQL_NULL), (Some '':y'', SQL_NULL)],
      program = (\<lambda>vs. ([], SQLITE_DONE)), exec = None, row = None\<rparr>"

definition anon_stmt :: sqlite3_stmt where
  "anon_stmt =
     \<lparr>readonly = True, columns = [(Some ''?'', None)],
      parameters = [(None, SQL_NULL)],
      program = (\<lambda>vs. ([vs], SQLITE_DONE)), exec = None, row = None\<rparr>"

text \<open>
  A connection that compiles \<open>select 1 as one\<close> and \<open>delete from t\<close>, takes any other
  text for a syntax error, and accepts every schema; and a call all of whose allocations
  succeed.
\<close>

definition one_stmt :: sqlite3_stmt where
  "one_stmt =
     \<lparr>readonly = True, columns = [(Some ''one'', None)], parameters = [],
      program = (\<lambda>vs. ([[SQL_INTEGER 1]], SQLITE_DONE)), exec = None, row = None\<rparr>"

definition delete_stmt :: sqlite3_stmt where
  "delete_stmt =
     \<lparr>readonly = False, columns = [], parameters = [],
      program = (\<lambda>vs. ([], SQLITE_DONE)), exec = None, row = None\<rparr>"

definition example_db :: sqlite3 where
  "example_db =
     \<lparr>prepare_v2 = (\<lambda>zSql. if zSql = ''select 1 as one'' then (SQLITE_OK, Some one_stmt, ''not an error'')
                        else if zSql = ''delete from t'' then (SQLITE_OK, Some delete_stmt, ''not an error'')
                        else (SQLITE_ERROR, None, ''syntax error'')),
      declare_vtab = (\<lambda>create. (SQLITE_OK, ''not an error''))\<rparr>"

definition all_ok :: allocs where
  "all_ok = \<lparr>err_alloc = True, vtab_alloc = True, sql_alloc = True, str_alloc = True\<rparr>"

section \<open>Properties of the encoding\<close>

lemma unat_group: "unat (((y::c_int) AND 63) + 33) = unat (y AND 63) + 33 \<and> unat (y AND 63) \<le> 63"
proof -
  have "(y AND 63) \<le> 63" by (rule word_and_le1)
  then have le: "unat (y AND 63) \<le> 63" by (simp add: word_le_nat_alt)
  then show ?thesis by (simp add: unat_word_ariths)
qed

lemma group_less_128: "((y::c_int) AND 63) + 33 < (128 :: c_int)" 
proof -
  show ?thesis using unat_group [of y] by (simp add: word_less_nat_alt)
qed

lemma scast_ucast_small: "(w :: c_int) < 128 \<Longrightarrow> scast (ucast w :: c_char) = w"
proof -
  assume "w < 128"
  then have "w < 2 ^ 7" by simp
  then have t: "take_bit 7 w = w" by (simp add: take_bit_eq_mask less_mask_eq)
  have "scast (ucast (take_bit 7 w) :: c_char) = take_bit 7 w"
    by (rule bit_word_eqI) (auto simp add: bit_simps)
  then show ?thesis by (simp add: t)
qed

lemma and_63_take_bit: "(y::c_int) AND 63 = take_bit 6 y"
  by (simp add: take_bit_eq_mask mask_eq_exp_minus_1)

lemma signed_drop_bit_nonneg: "0 \<le>s (x::c_int) \<Longrightarrow> signed_drop_bit k x = drop_bit k x"
  apply (rule bit_word_eqI)
  using bit_last_iff [of x]
  apply (auto simp add: bit_simps word_sle_eq dest: bit_imp_le_length)
  done

lemma bit_group: "n < 32 \<Longrightarrow> bit (push_bit k (take_bit 6 (drop_bit k (x::c_int)))) n \<longleftrightarrow> k \<le> n \<and> n < k + 6 \<and> bit x n"
  by (auto simp add: bit_simps)

lemma reassemble: "0 \<le>s (x::c_int) \<Longrightarrow>
   (x AND 63) OR push_bit 6 (signed_drop_bit 6 x AND 63) OR push_bit 12 (signed_drop_bit 12 x AND 63)
   OR push_bit 18 (signed_drop_bit 18 x AND 63) OR push_bit 24 (signed_drop_bit 24 x AND 63)
   OR push_bit 30 (signed_drop_bit 30 x AND 63) = x"
  apply (simp add: signed_drop_bit_nonneg and_63_take_bit)
  apply (rule bit_word_eqI)
  apply (simp add: bit_or_iff bit_group)
  apply (simp add: bit_simps)
  apply arith
  done


lemma upt_6: "[0..<6] = [0,1,2,3,4,5]" by (simp add: upt_rec)

lemma encode_param_idx_eq: "0 \<le>s x \<Longrightarrow> i * 6 + 6 \<le> length buf \<Longrightarrow>
  encode_param_idx i buf x = Some (take (i * 6) buf @ map (encode_byte x) [0..<6] @ drop (i * 6 + 6) buf)"
  apply (simp add: encode_param_idx_def param_idx_size_def upt_6 encode_step_def)
  apply (rule nth_equalityI)
   apply simp
  apply (auto simp add: nth_append nth_list_update less_Suc_eq)
  done

lemma encode_byte_range: "33 \<le> encode_byte x j \<and> encode_byte x j \<le> 96"
proof -
  let ?w = "(signed_drop_bit (6 * j) x AND 63) + (33 :: c_int)"
  have u: "unat ?w = unat (signed_drop_bit (6 * j) x AND 63) + 33"
    and le: "unat (signed_drop_bit (6 * j) x AND 63) \<le> 63"
    using unat_group [of "signed_drop_bit (6 * j) x"] by simp_all
  have "unat (ucast ?w :: c_char) = unat ?w"
    using u le by (simp add: unsigned_ucast_eq take_bit_nat_eq_self)
  then show ?thesis using u le by (simp add: encode_byte_def word_le_nat_alt)
qed

lemma decode_encode_byte:
  "decode_byte (encode_byte x j) j = push_bit (6 * j) (signed_drop_bit (6 * j) x AND 63)"
  by (simp add: decode_byte_def encode_byte_def scast_ucast_small group_less_128)

lemma decode_param_idx_eq: "i * 6 + 6 \<le> length buf \<Longrightarrow>
  decode_param_idx i buf = Some (decode_byte (buf ! (i * 6)) 0 OR decode_byte (buf ! (i * 6 + 1)) 1
     OR decode_byte (buf ! (i * 6 + 2)) 2 OR decode_byte (buf ! (i * 6 + 3)) 3
     OR decode_byte (buf ! (i * 6 + 4)) 4 OR decode_byte (buf ! (i * 6 + 5)) 5)"
  by (simp add: decode_param_idx_def param_idx_size_def upt_6 decode_step_def or.assoc)

lemma decode_encode_slot: "0 \<le>s x \<Longrightarrow> i * 6 + 6 \<le> length buf \<Longrightarrow>
  decode_param_idx i (take (i * 6) buf @ map (encode_byte x) [0..<6] @ drop (i * 6 + 6) buf) = Some x"
  apply (subst decode_param_idx_eq)
   apply simp
  apply (simp add: nth_append upt_6 decode_encode_byte)
  using reassemble [of x] apply (simp add: or.assoc)
  done


lemma encode_byte_printable: "printable (encode_byte x j) \<and> encode_byte x j \<noteq> 0"
proof -
  have r: "33 \<le> encode_byte x j" "encode_byte x j \<le> 96"
    using encode_byte_range [of x j] by simp_all
  have "(0x20 :: c_char) \<le> 33" "(96 :: c_char) \<le> 0x7E" by simp_all
  with r have "printable (encode_byte x j)"
    unfolding printable_def by (meson order_trans)
  moreover have "encode_byte x j \<noteq> 0"
    using r(1) by auto
  ultimately show ?thesis by simp
qed

text \<open>
  C4. For every non-negative \<open>int\<close> \<open>x\<close> and every slot \<open>i\<close> that lies inside the
  buffer: encoding \<open>x\<close> at slot \<open>i\<close> succeeds, decoding slot \<open>i\<close> of the result returns
  \<open>x\<close>, every byte of the slot is a printable character other than NUL (it lies between
  33 and 96), and no byte outside the slot changes.
\<close>

theorem codec_roundtrip:
  assumes "0 \<le>s x" and "(i + 1) * param_idx_size \<le> length param_map"
  shows "\<exists>m. encode_param_idx i param_map x = Some m
           \<and> length m = length param_map
           \<and> decode_param_idx i m = Some x
           \<and> (\<forall>j < param_idx_size.
                  m ! (i * param_idx_size + j) = encode_byte x j
                  \<and> 33 \<le> m ! (i * param_idx_size + j) \<and> m ! (i * param_idx_size + j) \<le> 96
                  \<and> printable (m ! (i * param_idx_size + j)) \<and> m ! (i * param_idx_size + j) \<noteq> 0)
           \<and> (\<forall>k < length m. k < i * param_idx_size \<or> (i + 1) * param_idx_size \<le> k
                  \<longrightarrow> m ! k = param_map ! k)"
proof -
  let ?m = "take (i * 6) param_map @ map (encode_byte x) [0..<6] @ drop (i * 6 + 6) param_map"
  have len: "i * 6 + 6 \<le> length param_map"
    using assms(2) by (simp add: param_idx_size_def)
  have enc: "encode_param_idx i param_map x = Some ?m"
    using assms(1) len by (rule encode_param_idx_eq)
  have dec: "decode_param_idx i ?m = Some x"
    using assms(1) len by (rule decode_encode_slot)
  have lm: "length ?m = length param_map"
    using len by simp
  have slot: "?m ! (i * 6 + j) = encode_byte x j" if "j < 6" for j
    using that len by (simp add: nth_append)
  have bytes: "\<forall>j < param_idx_size.
      ?m ! (i * param_idx_size + j) = encode_byte x j
      \<and> 33 \<le> ?m ! (i * param_idx_size + j) \<and> ?m ! (i * param_idx_size + j) \<le> 96
      \<and> printable (?m ! (i * param_idx_size + j)) \<and> ?m ! (i * param_idx_size + j) \<noteq> 0"
  proof (intro allI impI)
    fix j assume "j < param_idx_size"
    then have j: "j < 6" by (simp add: param_idx_size_def)
    show "?m ! (i * param_idx_size + j) = encode_byte x j
      \<and> 33 \<le> ?m ! (i * param_idx_size + j) \<and> ?m ! (i * param_idx_size + j) \<le> 96
      \<and> printable (?m ! (i * param_idx_size + j)) \<and> ?m ! (i * param_idx_size + j) \<noteq> 0"
      using slot [OF j] encode_byte_range [of x j] encode_byte_printable [of x j]
      by (simp add: param_idx_size_def)
  qed
  have rest: "\<forall>k < length ?m. k < i * param_idx_size \<or> (i + 1) * param_idx_size \<le> k
      \<longrightarrow> ?m ! k = param_map ! k"
  proof (intro allI impI)
    fix k assume k: "k < length ?m" and out: "k < i * param_idx_size \<or> (i + 1) * param_idx_size \<le> k"
    from out have "k < i * 6 \<or> i * 6 + 6 \<le> k" by (auto simp add: param_idx_size_def)
    then show "?m ! k = param_map ! k"
    proof
      assume "k < i * 6"
      then show ?thesis using len by (simp add: nth_append)
    next
      assume ge: "i * 6 + 6 \<le> k"
      then have "\<not> k < i * 6" and "\<not> k - i * 6 < 6" and "k - i * 6 - 6 = k - (i * 6 + 6)"
        by arith+
      then have "?m ! k = drop (i * 6 + 6) param_map ! (k - (i * 6 + 6))"
        using len by (simp add: nth_append)
      also have "\<dots> = param_map ! k"
        using ge k lm by simp
      finally show ?thesis .
    qed
  qed
  from enc lm dec bytes rest show ?thesis by blast
qed


theorem codec_roundtrip_witness:
  "0 \<le>s (12345678 :: c_int) \<and> (1 + 1) * param_idx_size \<le> length (replicate 13 (0 :: c_char))
   \<and> encode_param_idx 1 (replicate 13 0) 12345678 = Some [0, 0, 0, 0, 0, 0, 47, 38, 39, 80, 33, 33, 0]
   \<and> decode_param_idx 1 [0, 0, 0, 0, 0, 0, 47, 38, 39, 80, 33, 33, 0] = Some 12345678"
proof -
  have h1: "0 \<le>s (12345678 :: c_int)" by (simp add: word_sle_eq)
  have h2: "(1 + 1) * param_idx_size \<le> length (replicate 13 (0 :: c_char))"
    by (simp add: param_idx_size_def)
  have e: "encode_param_idx 1 (replicate 13 0) 12345678 = Some [0, 0, 0, 0, 0, 0, 47, 38, 39, 80, 33, 33, 0]"
    by code_simp
  from codec_roundtrip [OF h1 h2] e
  have "decode_param_idx 1 [0, 0, 0, 0, 0, 0, 47, 38, 39, 80, 33, 33, 0] = Some 12345678"
    by auto
  with h1 h2 e show ?thesis by blast
qed


section \<open>Arithmetic of the machine integers\<close>

lemma sint_range32: "- 2147483648 \<le> sint (x::c_int) \<and> sint x < 2147483648"
  using sint_ge [of x] sint_lt [of x] by simp

lemma sint_sub32: "- 2147483648 \<le> sint a - sint b \<Longrightarrow> sint a - sint b < 2147483648
  \<Longrightarrow> sint (a - b :: c_int) = sint a - sint b"
  by (simp add: sint_word_ariths signed_take_bit_int_eq_self)

lemma sint_add32: "- 2147483648 \<le> sint a + sint b \<Longrightarrow> sint a + sint b < 2147483648
  \<Longrightarrow> sint (a + b :: c_int) = sint a + sint b"
  by (simp add: sint_word_ariths signed_take_bit_int_eq_self)

lemma sint_of_nat32: "n < 2147483648 \<Longrightarrow> sint (of_nat n :: c_int) = int n"
  by (simp add: signed_of_nat signed_take_bit_int_eq_self)

lemma unat_nonneg32: "0 \<le> sint (x::c_int) \<Longrightarrow> unat x = nat (sint x)"
proof -
  assume a: "0 \<le> sint x"
  have "uint x = take_bit 32 (sint x)" using uint_sint [of x] by simp
  also have "\<dots> = sint x"
    using a sint_range32 [of x] by (simp add: take_bit_int_eq_self)
  finally show ?thesis by (simp add: unat_eq_nat_uint)
qed

lemma bit_push1: "bit (push_bit m (1 :: sqlite3_uint64)) k \<longleftrightarrow> k = m \<and> k < 64"
  by (auto simp add: bit_simps)

lemma req_mask: "m \<le> 64 \<Longrightarrow> (if m < 64 then push_bit m (1::sqlite3_uint64) else 0) - 1 = mask m"
  by (auto simp add: mask_eq_decr_exp)





lemma scan_0: "scan n_out cs us 0 = scan_init us"
  by (simp add: scan_def)

lemma scan_Suc: "scan n_out cs us (Suc n) = scan_constraint n_out cs n (scan n_out cs us n)"
  by (simp add: scan_def)

lemma trichotomy: "skipped n_out c \<or> infeasible n_out c \<or> accepted n_out c"
  by (auto simp add: infeasible_def accepted_def)


lemma accept_step_simps:
  "rejected (accept_step n_out c i s) = rejected s"
  "usage (accept_step n_out c i s) = (usage s)[i := (usage s ! i)\<lparr>argvIndex := iColumn c - n_out + 1, omit := 1\<rparr>]"
  "col_max (accept_step n_out c i s) = (if col_max s <s iColumn c - n_out + 1 then iColumn c - n_out + 1 else col_max s)"
  "used_cols (accept_step n_out c i s) = (if iColumn c - n_out <s 64
                      then used_cols s OR push_bit (unat (iColumn c - n_out)) 1
                      else used_cols s)"
  "out_constraints (accept_step n_out c i s) = out_constraints s + 1"
  by (simp_all add: accept_step_def)

lemma exclusive: "\<not> (skipped n_out c \<and> infeasible n_out c)" "\<not> (skipped n_out c \<and> accepted n_out c)"
  "\<not> (infeasible n_out c \<and> accepted n_out c)"
  by (auto simp add: infeasible_def accepted_def)

lemma scan_step_skipped: "rejected s \<or> skipped n_out (cs ! i) \<Longrightarrow> scan_constraint n_out cs i s = s"
  by (auto simp add: scan_constraint_def skipped_def)

lemma scan_step_infeasible: "\<not> rejected s \<Longrightarrow> infeasible n_out (cs ! i)
  \<Longrightarrow> scan_constraint n_out cs i s = s\<lparr>rejected := True\<rparr>"
  by (auto simp add: scan_constraint_def skipped_def infeasible_def)

lemma scan_step_accepted: "\<not> rejected s \<Longrightarrow> accepted n_out (cs ! i)
  \<Longrightarrow> scan_constraint n_out cs i s =
      accept_step n_out (cs ! i) i s"
  by (auto simp add: scan_constraint_def skipped_def accepted_def Let_def accept_step_def)

lemma rejected_scan: "n \<le> length cs \<Longrightarrow>
  rejected (scan n_out cs us n) \<longleftrightarrow> (\<exists>i<n. infeasible n_out (cs ! i))"
proof (induction n)
  case 0 show ?case by (simp add: scan_0 scan_init_def)
next
  case (Suc n)
  then have IH: "rejected (scan n_out cs us n) \<longleftrightarrow> (\<exists>i<n. infeasible n_out (cs ! i))" by simp
  consider "rejected (scan n_out cs us n)" | "\<not> rejected (scan n_out cs us n)" "skipped n_out (cs ! n)"
    | "\<not> rejected (scan n_out cs us n)" "infeasible n_out (cs ! n)"
    | "\<not> rejected (scan n_out cs us n)" "accepted n_out (cs ! n)"
    using trichotomy [of n_out "cs ! n"] by blast
  then show ?case
  proof cases
    case 1 then show ?thesis using IH by (auto simp add: scan_Suc scan_step_skipped less_Suc_eq)
  next
    case 2 then show ?thesis using IH exclusive [of n_out "cs ! n"]
      by (auto simp add: scan_Suc scan_step_skipped less_Suc_eq)
  next
    case 3 then show ?thesis by (auto simp add: scan_Suc scan_step_infeasible)
  next
    case 4 then show ?thesis using IH exclusive [of n_out "cs ! n"]
      by (auto simp add: scan_Suc scan_step_accepted less_Suc_eq accept_step_simps)
  qed
qed

text \<open>One more iteration that does not reject: either nothing changes, or the constraint is accepted.\<close>

lemma scan_Suc_cases:
  assumes "\<not> rejected (scan n_out cs us (Suc n))"
  obtains (skip) "\<not> accepted n_out (cs ! n)" "scan n_out cs us (Suc n) = scan n_out cs us n"
  | (acc) "accepted n_out (cs ! n)" "\<not> rejected (scan n_out cs us n)"
      "scan n_out cs us (Suc n) = accept_step n_out (cs ! n) n (scan n_out cs us n)"
proof -
  let ?s = "scan n_out cs us n"
  consider "rejected ?s" | "\<not> rejected ?s" "skipped n_out (cs ! n)"
    | "\<not> rejected ?s" "infeasible n_out (cs ! n)"
    | "\<not> rejected ?s" "accepted n_out (cs ! n)"
    using trichotomy [of n_out "cs ! n"] by blast
  then show thesis
  proof cases
    case 1 then show ?thesis using assms by (simp add: scan_Suc scan_step_skipped)
  next
    case 2 then show ?thesis using skip exclusive(2) [of n_out "cs ! n"]
      by (simp add: scan_Suc scan_step_skipped)
  next
    case 3 then show ?thesis using assms by (simp add: scan_Suc scan_step_infeasible)
  next
    case 4 then show ?thesis using acc by (simp add: scan_Suc scan_step_accepted)
  qed
qed

lemma rejected_scan_mono: "\<not> rejected (scan n_out cs us (Suc n)) \<Longrightarrow> \<not> rejected (scan n_out cs us n)"
  by (rule scan_Suc_cases [of n_out cs us n]) auto

lemma length_usage_scan: "length (usage (scan n_out cs us n)) = length us"
proof (induction n)
  case 0 show ?case by (simp add: scan_0 scan_init_def)
next
  case (Suc n)
  show ?case
  proof (cases "rejected (scan n_out cs us (Suc n))")
    case True
    consider "rejected (scan n_out cs us n)" | "\<not> rejected (scan n_out cs us n)" "skipped n_out (cs ! n)"
      | "\<not> rejected (scan n_out cs us n)" "infeasible n_out (cs ! n)"
      | "\<not> rejected (scan n_out cs us n)" "accepted n_out (cs ! n)"
      using trichotomy [of n_out "cs ! n"] by blast
    then show ?thesis
      using Suc by cases (simp_all add: scan_Suc scan_step_skipped scan_step_infeasible scan_step_accepted accept_step_simps)
  next
    case False
    then show ?thesis by (rule scan_Suc_cases) (simp_all add: Suc accept_step_simps)
  qed
qed

lemma usage_scan_accepted:
  "i < length us \<Longrightarrow> i < n \<Longrightarrow> accepted n_out (cs ! i) \<Longrightarrow> \<not> rejected (scan n_out cs us n)
   \<Longrightarrow> usage (scan n_out cs us n) ! i = (us ! i)\<lparr>argvIndex := iColumn (cs ! i) - n_out + 1, omit := 1\<rparr>"
  and usage_scan_unchanged:
  "i < length us \<Longrightarrow> n \<le> i \<or> \<not> accepted n_out (cs ! i) \<Longrightarrow> \<not> rejected (scan n_out cs us n)
   \<Longrightarrow> usage (scan n_out cs us n) ! i = us ! i"
proof (induction n)
  case 0
  { case 1 then show ?case by simp }
  { case 2 show ?case by (simp add: scan_0 scan_init_def) }
next
  case (Suc n)
  { case 1
    from 1(4) show ?case
    proof (rule scan_Suc_cases)
      assume a: "\<not> accepted n_out (cs ! n)" "scan n_out cs us (Suc n) = scan n_out cs us n"
      then have "i \<noteq> n" using 1(3) by auto
      then have "i < n" using 1(2) by simp
      then show ?thesis using Suc.IH(1) 1 a by simp
    next
      assume a: "accepted n_out (cs ! n)" "\<not> rejected (scan n_out cs us n)"
        and eq: "scan n_out cs us (Suc n) = accept_step n_out (cs ! n) n (scan n_out cs us n)"
      show ?thesis
      proof (cases "i = n")
        case True
        have "usage (scan n_out cs us n) ! n = us ! n"
          using Suc.IH(2) [of ] 1(1) True a(2) by simp
        then show ?thesis using True 1(1) by (simp add: eq length_usage_scan accept_step_simps)
      next
        case False
        then have "i < n" using 1(2) by simp
        then show ?thesis using Suc.IH(1) 1 a False by (simp add: eq accept_step_simps)
      qed
    qed }
  { case 2
    from 2(3) show ?case
    proof (rule scan_Suc_cases)
      assume a: "\<not> accepted n_out (cs ! n)" "scan n_out cs us (Suc n) = scan n_out cs us n"
      have "n \<le> i \<or> \<not> accepted n_out (cs ! i)" using 2(2) by auto
      then show ?thesis using Suc.IH(2) 2 a by simp
    next
      assume a: "accepted n_out (cs ! n)" "\<not> rejected (scan n_out cs us n)"
        and eq: "scan n_out cs us (Suc n) = accept_step n_out (cs ! n) n (scan n_out cs us n)"
      have "i \<noteq> n" using 2(2) a(1) by auto
      moreover have "n \<le> i \<or> \<not> accepted n_out (cs ! i)" using 2(2) by auto
      ultimately show ?thesis using Suc.IH(2) 2 a by (simp add: eq accept_step_simps)
    qed }
qed

lemma out_constraints_scan:
  "n \<le> length cs \<Longrightarrow> \<not> rejected (scan n_out cs us n)
   \<Longrightarrow> out_constraints (scan n_out cs us n) = of_nat (length (filter (accepted n_out) (take n cs)))"
proof (induction n)
  case 0 show ?case by (simp add: scan_0 scan_init_def)
next
  case (Suc n)
  have tk: "take (Suc n) cs = take n cs @ [cs ! n]"
    using Suc.prems(1) by (simp add: take_Suc_conv_app_nth)
  from Suc.prems(2) show ?case
  proof (rule scan_Suc_cases)
    assume a: "\<not> accepted n_out (cs ! n)" "scan n_out cs us (Suc n) = scan n_out cs us n"
    then show ?thesis using Suc by (simp add: tk)
  next
    assume a: "accepted n_out (cs ! n)" "\<not> rejected (scan n_out cs us n)"
    assume "scan n_out cs us (Suc n) = accept_step n_out (cs ! n) n (scan n_out cs us n)"
    then show ?thesis using Suc a by (simp add: tk accept_step_simps)
  qed
qed



lemma accepted_index_facts:
  assumes "accepted n_out c" and "0 \<le>s n_out" and "iColumn c <s 0x7FFFFFFF"
  shows "sint (iColumn c - n_out) = int (col_index n_out c)"
    and "sint (iColumn c - n_out + 1) = int (col_index n_out c) + 1"
    and "unat (iColumn c - n_out) = col_index n_out c"
    and "iColumn c - n_out <s 64 \<longleftrightarrow> col_index n_out c < 64"
    and "0 \<le>s iColumn c - n_out + 1"
    and "iColumn c - n_out + 1 \<noteq> 0"
proof -
  have ge: "sint n_out \<le> sint (iColumn c)"
    using assms(1) by (simp add: accepted_def skipped_def word_sless_alt)
  have n0: "0 \<le> sint n_out" using assms(2) by (simp add: word_sle_eq)
  have lt: "sint (iColumn c) < 2147483647" using assms(3) by (simp add: word_sless_alt)
  have d: "sint (iColumn c - n_out) = sint (iColumn c) - sint n_out"
    using ge n0 lt sint_range32 [of n_out] by (intro sint_sub32) simp_all
  show 1: "sint (iColumn c - n_out) = int (col_index n_out c)"
    using d ge by (simp add: col_index_def)
  show 2: "sint (iColumn c - n_out + 1) = int (col_index n_out c) + 1"
  proof -
    have "sint (iColumn c - n_out + 1) = sint (iColumn c - n_out) + sint (1 :: c_int)"
      using d ge n0 lt by (intro sint_add32) simp_all
    then show ?thesis using 1 by simp
  qed
  show "unat (iColumn c - n_out) = col_index n_out c"
    using unat_nonneg32 [of "iColumn c - n_out"] 1 by simp
  show "iColumn c - n_out <s 64 \<longleftrightarrow> col_index n_out c < 64"
    using 1 by (simp add: word_sless_alt)
  show "0 \<le>s iColumn c - n_out + 1"
    using 2 by (simp add: word_sle_eq)
  show "iColumn c - n_out + 1 \<noteq> 0"
  proof
    assume "iColumn c - n_out + 1 = 0"
    then have "sint (iColumn c - n_out + 1) = 0" by simp
    then show False using 2 by simp
  qed
qed

lemma bit_exp64: "bit (2 ^ m :: sqlite3_uint64) k \<longleftrightarrow> k = m \<and> k < 64"
  by (auto simp add: bit_exp_iff)

lemma col_max_scan:
  assumes n0: "0 \<le>s n_out" and cols: "list_all (\<lambda>c. iColumn c <s 0x7FFFFFFF) cs"
  shows "n \<le> length cs \<Longrightarrow> \<not> rejected (scan n_out cs us n)
   \<Longrightarrow> sint (col_max (scan n_out cs us n)) =
       int (Max (insert 0 ((\<lambda>c. Suc (col_index n_out c)) ` set (filter (accepted n_out) (take n cs)))))"
proof (induction n)
  case 0 show ?case by (simp add: scan_0 scan_init_def)
next
  case (Suc n)
  have tk: "take (Suc n) cs = take n cs @ [cs ! n]"
    using Suc.prems(1) by (simp add: take_Suc_conv_app_nth)
  let ?A = "insert 0 ((\<lambda>c. Suc (col_index n_out c)) ` set (filter (accepted n_out) (take n cs)))"
  from Suc.prems(2) show ?case
  proof (rule scan_Suc_cases)
    assume a: "\<not> accepted n_out (cs ! n)" "scan n_out cs us (Suc n) = scan n_out cs us n"
    then show ?thesis using Suc by (simp add: tk)
  next
    assume a: "accepted n_out (cs ! n)" "\<not> rejected (scan n_out cs us n)"
    assume eq: "scan n_out cs us (Suc n) = accept_step n_out (cs ! n) n (scan n_out cs us n)"
    have IH: "sint (col_max (scan n_out cs us n)) = int (Max ?A)" using Suc a by simp
    have c: "iColumn (cs ! n) <s 0x7FFFFFFF"
      using cols Suc.prems(1) by (simp add: list_all_length)
    have x: "sint (iColumn (cs ! n) - n_out + 1) = int (Suc (col_index n_out (cs ! n)))"
      using accepted_index_facts(2) [OF a(1) n0 c] by simp
    have "sint (col_max (scan n_out cs us (Suc n))) = int (max (Suc (col_index n_out (cs ! n))) (Max ?A))"
      using IH x by (simp add: eq accept_step_simps word_sless_alt max_def)
    also have "max (Suc (col_index n_out (cs ! n))) (Max ?A) = Max (insert (Suc (col_index n_out (cs ! n))) ?A)"
      by (subst Max_insert) simp_all
    finally show ?thesis using a(1) by (simp add: tk insert_commute)
  qed
qed

lemma used_cols_scan:
  assumes n0: "0 \<le>s n_out" and cols: "list_all (\<lambda>c. iColumn c <s 0x7FFFFFFF) cs"
  shows "n \<le> length cs \<Longrightarrow> \<not> rejected (scan n_out cs us n)
   \<Longrightarrow> bit (used_cols (scan n_out cs us n)) k \<longleftrightarrow>
       k < 64 \<and> k \<in> col_index n_out ` set (filter (accepted n_out) (take n cs))"
proof (induction n)
  case 0 show ?case by (simp add: scan_0 scan_init_def)
next
  case (Suc n)
  have tk: "take (Suc n) cs = take n cs @ [cs ! n]"
    using Suc.prems(1) by (simp add: take_Suc_conv_app_nth)
  from Suc.prems(2) show ?case
  proof (rule scan_Suc_cases)
    assume a: "\<not> accepted n_out (cs ! n)" "scan n_out cs us (Suc n) = scan n_out cs us n"
    then show ?thesis using Suc by (simp add: tk)
  next
    assume a: "accepted n_out (cs ! n)" "\<not> rejected (scan n_out cs us n)"
    assume eq: "scan n_out cs us (Suc n) = accept_step n_out (cs ! n) n (scan n_out cs us n)"
    have IH: "bit (used_cols (scan n_out cs us n)) k \<longleftrightarrow>
       k < 64 \<and> k \<in> col_index n_out ` set (filter (accepted n_out) (take n cs))" using Suc a by simp
    have c: "iColumn (cs ! n) <s 0x7FFFFFFF"
      using cols Suc.prems(1) by (simp add: list_all_length)
    note f = accepted_index_facts [OF a(1) n0 c]
    show ?thesis
      using IH a(1) by (auto simp add: eq accept_step_simps f(3) f(4) tk bit_or_iff bit_exp64)
  qed
qed



lemma Max_Suc_bounds:
  fixes xs :: "nat list"
  defines "M \<equiv> Max (insert 0 (Suc ` set xs))"
  shows "\<forall>x \<in> set xs. x < M" and "xs \<noteq> [] \<Longrightarrow> \<exists>x \<in> set xs. M = Suc x" and "xs = [] \<Longrightarrow> M = 0"
proof -
  have fin: "finite (insert 0 (Suc ` set xs))" by simp
  show "\<forall>x \<in> set xs. x < M"
  proof
    fix x assume "x \<in> set xs"
    then have "Suc x \<in> insert 0 (Suc ` set xs)" by simp
    then have "Suc x \<le> M" unfolding M_def using fin by (rule_tac Max_ge) simp_all
    then show "x < M" by simp
  qed
  show "xs = [] \<Longrightarrow> M = 0" by (simp add: M_def)
  show "\<exists>x \<in> set xs. M = Suc x" if ne: "xs \<noteq> []"
  proof -
    have "M \<in> insert 0 (Suc ` set xs)" unfolding M_def using fin by (rule_tac Max_in) simp_all
    moreover have "M \<noteq> 0"
    proof -
      obtain x where "x \<in> set xs" using ne by (cases xs) auto
      then have "x < M" using \<open>\<forall>x \<in> set xs. x < M\<close> by simp
      then show ?thesis by simp
    qed
    ultimately show ?thesis by auto
  qed
qed

lemma contiguous_iff:
  fixes xs :: "nat list"
  defines "M \<equiv> Max (insert 0 (Suc ` set xs))"
  shows "contiguous xs \<longleftrightarrow>
     xs = [] \<or> (M \<le> 64 \<and> (\<forall>k<64. k \<in> set xs \<longleftrightarrow> k < M) \<and> length xs = M)"
proof (cases "xs = []")
  case True then show ?thesis by (simp add: contiguous_def)
next
  case False
  note b = Max_Suc_bounds [of xs, folded M_def]
  show ?thesis
  proof
    assume c: "contiguous xs"
    then have len: "length xs \<le> 64" and st: "set xs = {0..<length xs}" by (simp_all add: contiguous_def)
    obtain x where x: "x \<in> set xs" "M = Suc x" using b(2) False by blast
    have "M \<le> length xs" using x st by auto
    moreover have "length xs \<le> M"
    proof -
      have "length xs - 1 \<in> set xs" using st False by (cases xs) auto
      then have "length xs - 1 < M" using b(1) by blast
      then show ?thesis by simp
    qed
    ultimately have "length xs = M" by simp
    then show "xs = [] \<or> (M \<le> 64 \<and> (\<forall>k<64. k \<in> set xs \<longleftrightarrow> k < M) \<and> length xs = M)"
      using len st by auto
  next
    assume "xs = [] \<or> (M \<le> 64 \<and> (\<forall>k<64. k \<in> set xs \<longleftrightarrow> k < M) \<and> length xs = M)"
    then have M: "M \<le> 64" and k: "\<forall>k<64. k \<in> set xs \<longleftrightarrow> k < M" and l: "length xs = M"
      using False by simp_all
    have "set xs = {0..<M}"
    proof (intro set_eqI iffI)
      fix x assume "x \<in> set xs" then show "x \<in> {0..<M}" using b(1) by simp
    next
      fix x assume "x \<in> {0..<M}" then show "x \<in> set xs" using k M by simp
    qed
    then show "contiguous xs" using M l by (simp add: contiguous_def)
  qed
qed


lemma count_le: "length (filter P cs) \<le> length cs" by simp

lemma direct_cond_iff:
  assumes n0: "0 \<le>s n_out" and cols: "list_all (\<lambda>c. iColumn c <s 0x7FFFFFFF) cs"
    and len: "length cs < 2 ^ 31"
    and nr: "\<not> rejected (scan n_out cs us (length cs))"
  shows "direct_cond (scan n_out cs us (length cs)) \<longleftrightarrow> contiguous (col_indices n_out cs)"
proof -
  let ?s = "scan n_out cs us (length cs)"
  let ?xs = "col_indices n_out cs"
  let ?M = "Max (insert 0 (Suc ` set ?xs))"
  have "length (filter (accepted n_out) cs) \<le> length cs" by simp
  moreover have "length cs < 2147483648" using len by simp
  ultimately have "length (filter (accepted n_out) cs) < 2147483648" by (rule le_less_trans)
  then have cnt: "length ?xs < 2147483648" by (simp add: col_indices_def)
  have oc: "out_constraints ?s = of_nat (length ?xs)"
    using out_constraints_scan [of "length cs" cs n_out us] nr by (simp add: col_indices_def)
  have soc: "sint (out_constraints ?s) = int (length ?xs)"
    using cnt by (simp add: oc sint_of_nat32)
  have img: "(\<lambda>c. Suc (col_index n_out c)) ` set (filter (accepted n_out) cs) = Suc ` set ?xs"
    by (auto simp add: col_indices_def)
  have cm: "sint (col_max ?s) = int ?M"
    using col_max_scan [OF n0 cols, of "length cs" us] nr img by simp
  have ucm: "unat (col_max ?s) = ?M"
    using unat_nonneg32 [of "col_max ?s"] cm by simp
  have used: "bit (used_cols ?s) k \<longleftrightarrow> k < 64 \<and> k \<in> set ?xs" for k
    using used_cols_scan [OF n0 cols, of "length cs" us k] nr by (simp add: col_indices_def)
  have z: "out_constraints ?s = 0 \<longleftrightarrow> ?xs = []"
  proof
    assume "out_constraints ?s = 0"
    then have "sint (out_constraints ?s) = 0" by simp
    then show "?xs = []" using soc by simp
  next
    assume "?xs = []" then show "out_constraints ?s = 0" using oc by simp
  qed
  have e: "out_constraints ?s = col_max ?s \<longleftrightarrow> length ?xs = ?M"
  proof
    assume "out_constraints ?s = col_max ?s"
    then have "sint (out_constraints ?s) = sint (col_max ?s)" by simp
    then show "length ?xs = ?M" using soc cm by simp
  next
    assume "length ?xs = ?M"
    then have "sint (out_constraints ?s) = sint (col_max ?s)" using soc cm by simp
    then show "out_constraints ?s = col_max ?s" by (rule signed_word_eqI)
  qed
  have le: "col_max ?s \<le>s 64 \<longleftrightarrow> ?M \<le> 64"
    using cm by (simp add: word_sle_eq)
  have lt: "col_max ?s <s 64 \<longleftrightarrow> ?M < 64"
    using cm by (simp add: word_sless_alt)
  have u: "used_cols ?s = (if col_max ?s <s 64 then push_bit (unat (col_max ?s)) 1 else 0) - 1
      \<longleftrightarrow> (\<forall>k<64. k \<in> set ?xs \<longleftrightarrow> k < ?M)" if M: "?M \<le> 64"
  proof -
    have r: "(if col_max ?s <s 64 then push_bit (unat (col_max ?s)) 1 else 0) - 1 = (mask ?M :: sqlite3_uint64)"
      using req_mask [OF M] by (simp only: lt ucm)
    show ?thesis
      unfolding r
      by (auto simp add: bit_eq_iff used bit_simps)
  qed
  show ?thesis
    unfolding direct_cond_def contiguous_iff z e le
    using u by auto
qed







lemma mapping_0: "mapping us buf 0 = map_init us buf"
  by (simp add: mapping_def)

lemma mapping_Suc: "mapping us buf (Suc n) = map_constraint n (mapping us buf n)"
  by (simp add: mapping_def)

lemma length_encode_all: "length (encode_all ts) = 6 * length ts"
  by (induction ts) (simp_all add: encode_all_def)

lemma encode_all_snoc: "encode_all (ts @ [t]) = encode_all ts @ map (encode_byte t) [0..<6]"
  by (simp add: encode_all_def)

lemma encode_param_idx_append:
  assumes "0 \<le>s x" and "length P = i * 6" and "6 \<le> length R"
  shows "encode_param_idx i (P @ R) x = Some (P @ map (encode_byte x) [0..<6] @ drop 6 R)"
proof -
  have "i * 6 + 6 \<le> length (P @ R)" using assms by simp
  from encode_param_idx_eq [OF assms(1) this] show ?thesis using assms(2) by simp
qed

lemma length_m_usage: "length (m_usage (mapping us buf n)) = length us"
  by (induction n) (simp_all add: mapping_0 map_init_def mapping_Suc map_constraint_def)

lemma m_usage_later: "n \<le> i \<Longrightarrow> m_usage (mapping us buf n) ! i = us ! i"
  by (induction n) (simp_all add: mapping_0 map_init_def mapping_Suc map_constraint_def)

lemma constraint_idx_mapping:
  "n \<le> length us \<Longrightarrow> constraint_idx (mapping us buf n) = length (filter bound (take n us))"
proof (induction n)
  case 0 show ?case by (simp add: mapping_0 map_init_def)
next
  case (Suc n)
  have tk: "take (Suc n) us = take n us @ [us ! n]"
    using Suc.prems by (simp add: take_Suc_conv_app_nth)
  have "m_usage (mapping us buf n) ! n = us ! n" by (simp add: m_usage_later)
  then show ?case using Suc by (simp add: mapping_Suc map_constraint_def tk bound_def)
qed

lemma m_usage_mapping:
  "n \<le> length us \<Longrightarrow> i < length us \<Longrightarrow>
   m_usage (mapping us buf n) ! i =
     (if i < n \<and> bound (us ! i)
      then (us ! i)\<lparr>argvIndex := of_nat (length (filter bound (take i us)) + 1)\<rparr>
      else us ! i)"
proof (induction n)
  case 0 show ?case by (simp add: mapping_0 map_init_def)
next
  case (Suc n)
  have n: "m_usage (mapping us buf n) ! n = us ! n" by (simp add: m_usage_later)
  have IH: "m_usage (mapping us buf n) ! i =
     (if i < n \<and> bound (us ! i)
      then (us ! i)\<lparr>argvIndex := of_nat (length (filter bound (take i us)) + 1)\<rparr>
      else us ! i)" using Suc by simp
  have ci: "constraint_idx (mapping us buf n) = length (filter bound (take n us))"
    using Suc.prems by (simp add: constraint_idx_mapping)
  show ?case
  proof (cases "i = n")
    case True
    then show ?thesis using n ci Suc.prems
      by (simp add: mapping_Suc map_constraint_def bound_def length_m_usage)
  next
    case False
    then show ?thesis using IH n
      by (auto simp add: mapping_Suc map_constraint_def bound_def less_Suc_eq)
  qed
qed

lemma m_idxStr_mapping:
  assumes nonneg: "list_all (\<lambda>u. 0 \<le>s argvIndex u) us"
    and room: "6 * length (filter bound us) \<le> length buf"
  shows "n \<le> length us \<Longrightarrow>
    m_idxStr (mapping us buf n) =
      Some (encode_all (map argvIndex (filter bound (take n us)))
            @ drop (6 * length (filter bound (take n us))) buf)"
proof (induction n)
  case 0 show ?case by (simp add: mapping_0 map_init_def encode_all_def)
next
  case (Suc n)
  let ?k = "length (filter bound (take n us))"
  let ?ts = "map argvIndex (filter bound (take n us))"
  have tk: "take (Suc n) us = take n us @ [us ! n]"
    using Suc.prems by (simp add: take_Suc_conv_app_nth)
  have n: "m_usage (mapping us buf n) ! n = us ! n" by (simp add: m_usage_later)
  have IH: "m_idxStr (mapping us buf n) = Some (encode_all ?ts @ drop (6 * ?k) buf)"
    using Suc by simp
  have ci: "constraint_idx (mapping us buf n) = ?k"
    using Suc.prems by (simp add: constraint_idx_mapping)
  show ?case
  proof (cases "bound (us ! n)")
    case False
    then have "argvIndex (us ! n) = 0" by (simp add: bound_def)
    then show ?thesis using False IH n by (simp add: mapping_Suc map_constraint_def tk)
  next
    case True
    then have nz: "argvIndex (us ! n) \<noteq> 0" by (simp add: bound_def)
    have "length (filter bound (take (Suc n) us)) \<le> length (filter bound us)"
    proof -
      have "us = take (Suc n) us @ drop (Suc n) us" by simp
      then have "filter bound us = filter bound (take (Suc n) us) @ filter bound (drop (Suc n) us)"
        by (metis filter_append)
      then show ?thesis by (metis le_add1 length_append)
    qed
    then have k1: "6 * (?k + 1) \<le> length buf" using True room by (simp add: tk)
    have x: "0 \<le>s argvIndex (us ! n)"
      using nonneg Suc.prems by (simp add: list_all_length)
    have enc: "encode_param_idx ?k (encode_all ?ts @ drop (6 * ?k) buf) (argvIndex (us ! n))
        = Some (encode_all ?ts @ map (encode_byte (argvIndex (us ! n))) [0..<6] @ drop 6 (drop (6 * ?k) buf))"
      using x k1 by (intro encode_param_idx_append) (simp_all add: length_encode_all)
    show ?thesis
      using True nz IH n ci enc
      by (simp add: mapping_Suc map_constraint_def tk encode_all_snoc add.commute)
  qed
qed









lemma scan_usage_eq:
  assumes nr: "\<not> rejected (scan n_out cs (replicate (length cs) no_usage) (length cs))"
  shows "usage (scan n_out cs (replicate (length cs) no_usage) (length cs)) = direct_usage n_out cs"
proof (rule nth_equalityI)
  show "length (usage (scan n_out cs (replicate (length cs) no_usage) (length cs))) = length (direct_usage n_out cs)"
    by (simp add: length_usage_scan direct_usage_def)
next
  fix i assume "i < length (usage (scan n_out cs (replicate (length cs) no_usage) (length cs)))"
  then have i: "i < length cs" by (simp add: length_usage_scan)
  show "usage (scan n_out cs (replicate (length cs) no_usage) (length cs)) ! i = direct_usage n_out cs ! i"
  proof (cases "accepted n_out (cs ! i)")
    case True
    then show ?thesis
      using usage_scan_accepted [of i "replicate (length cs) no_usage" "length cs" n_out cs] i nr
      by (simp add: direct_usage_def direct_entry_def)
  next
    case False
    then show ?thesis
      using usage_scan_unchanged [of i "replicate (length cs) no_usage" "length cs" n_out cs] i nr
      by (simp add: direct_usage_def direct_entry_def)
  qed
qed

lemma bound_direct_entry:
  assumes "0 \<le>s n_out" and "iColumn c <s 0x7FFFFFFF"
  shows "bound (direct_entry n_out c) \<longleftrightarrow> accepted n_out c"
    and "0 \<le>s argvIndex (direct_entry n_out c)"
  using accepted_index_facts(5,6) [of n_out c] assms
  by (auto simp add: bound_def direct_entry_def)

lemma filter_bound_direct:
  assumes n0: "0 \<le>s n_out" and cols: "list_all (\<lambda>c. iColumn c <s 0x7FFFFFFF) cs"
  shows "filter bound (take n (direct_usage n_out cs))
         = map (direct_entry n_out) (filter (accepted n_out) (take n cs))"
proof -
  have "filter bound (take n (direct_usage n_out cs))
        = map (direct_entry n_out) (filter (bound \<circ> direct_entry n_out) (take n cs))"
    by (simp add: direct_usage_def take_map filter_map)
  also have "filter (bound \<circ> direct_entry n_out) (take n cs) = filter (accepted n_out) (take n cs)"
  proof (rule filter_cong)
    fix c assume "c \<in> set (take n cs)"
    then have "c \<in> set cs" by (rule in_set_takeD)
    then have "iColumn c <s 0x7FFFFFFF" using cols by (simp add: list_all_iff)
    then show "(bound \<circ> direct_entry n_out) c = accepted n_out c"
      using bound_direct_entry(1) [OF n0] by simp
  qed simp
  finally show ?thesis .
qed

lemma targets_direct:
  assumes n0: "0 \<le>s n_out" and cols: "list_all (\<lambda>c. iColumn c <s 0x7FFFFFFF) cs"
  shows "map argvIndex (filter bound (take n (direct_usage n_out cs))) = targets n_out (take n cs)"
    and "length (filter bound (take n (direct_usage n_out cs))) = rank n_out cs n"
  by (simp_all add: filter_bound_direct [OF n0 cols] targets_def rank_def direct_entry_def)

lemma take_all_direct: "take (length cs) (direct_usage n_out cs) = direct_usage n_out cs"
  by (simp add: direct_usage_def)

lemma nonneg_direct:
  assumes n0: "0 \<le>s n_out" and cols: "list_all (\<lambda>c. iColumn c <s 0x7FFFFFFF) cs"
  shows "list_all (\<lambda>u. 0 \<le>s argvIndex u) (direct_usage n_out cs)"
  using cols bound_direct_entry(2) [OF n0]
  by (simp add: direct_usage_def list_all_iff)

lemma mapping_usage_eq:
  assumes n0: "0 \<le>s n_out" and cols: "list_all (\<lambda>c. iColumn c <s 0x7FFFFFFF) cs"
  shows "m_usage (mapping (direct_usage n_out cs) buf (length cs)) = mapped_usage n_out cs"
proof (rule nth_equalityI)
  show "length (m_usage (mapping (direct_usage n_out cs) buf (length cs))) = length (mapped_usage n_out cs)"
    by (simp add: length_m_usage direct_usage_def mapped_usage_def)
next
  fix i assume "i < length (m_usage (mapping (direct_usage n_out cs) buf (length cs)))"
  then have i: "i < length cs" by (simp add: length_m_usage direct_usage_def)
  have c: "iColumn (cs ! i) <s 0x7FFFFFFF" using cols i by (simp add: list_all_length)
  have d: "direct_usage n_out cs ! i = direct_entry n_out (cs ! i)"
    using i by (simp add: direct_usage_def)
  have b: "bound (direct_usage n_out cs ! i) \<longleftrightarrow> accepted n_out (cs ! i)"
    using bound_direct_entry(1) [OF n0 c] d by simp
  have "m_usage (mapping (direct_usage n_out cs) buf (length cs)) ! i =
     (if i < length cs \<and> bound (direct_usage n_out cs ! i)
      then (direct_usage n_out cs ! i)\<lparr>argvIndex := of_nat (length (filter bound (take i (direct_usage n_out cs))) + 1)\<rparr>
      else direct_usage n_out cs ! i)"
    using i by (intro m_usage_mapping) (simp_all add: direct_usage_def)
  then show "m_usage (mapping (direct_usage n_out cs) buf (length cs)) ! i = mapped_usage n_out cs ! i"
    using i b targets_direct(2) [OF n0 cols, of i]
    by (simp add: mapped_usage_def d) (simp add: direct_entry_def)
qed

lemma mapping_idxStr_eq:
  assumes n0: "0 \<le>s n_out" and cols: "list_all (\<lambda>c. iColumn c <s 0x7FFFFFFF) cs"
    and len: "length buf = length (filter (accepted n_out) cs) * 6 + 1"
  shows "\<exists>b. m_idxStr (mapping (direct_usage n_out cs) buf (length cs)) = Some (encode_all (targets n_out cs) @ [b])"
proof -
  let ?us = "direct_usage n_out cs"
  have k: "length (filter bound ?us) = length (filter (accepted n_out) cs)"
    using targets_direct(2) [OF n0 cols, of "length cs"] by (simp add: take_all_direct rank_def)
  have "m_idxStr (mapping ?us buf (length ?us)) =
      Some (encode_all (map argvIndex (filter bound (take (length ?us) ?us)))
            @ drop (6 * length (filter bound (take (length ?us) ?us))) buf)"
    using nonneg_direct [OF n0 cols] k len by (intro m_idxStr_mapping) simp_all
  then have m: "m_idxStr (mapping ?us buf (length cs)) =
      Some (encode_all (targets n_out cs) @ drop (6 * length (filter (accepted n_out) cs)) buf)"
    using targets_direct(1) [OF n0 cols, of "length cs"] k
    by (simp add: direct_usage_def)
  have "length (drop (6 * length (filter (accepted n_out) cs)) buf) = 1" using len by simp
  then obtain b where "drop (6 * length (filter (accepted n_out) cs)) buf = [b]"
    by (cases "drop (6 * length (filter (accepted n_out) cs)) buf") auto
  then show ?thesis using m by simp
qed



lemma usage_scan_not_accepted:
  "i < length us \<Longrightarrow> \<not> accepted n_out (cs ! i) \<Longrightarrow> usage (scan n_out cs us n) ! i = us ! i"
proof (induction n)
  case 0 show ?case by (simp add: scan_0 scan_init_def)
next
  case (Suc n)
  consider "rejected (scan n_out cs us n)" | "\<not> rejected (scan n_out cs us n)" "skipped n_out (cs ! n)"
    | "\<not> rejected (scan n_out cs us n)" "infeasible n_out (cs ! n)"
    | "\<not> rejected (scan n_out cs us n)" "accepted n_out (cs ! n)"
    using trichotomy [of n_out "cs ! n"] by blast
  then show ?case
  proof cases
    case 4
    then have "i \<noteq> n" using Suc.prems by auto
    then show ?thesis using 4 Suc
      by (simp add: scan_Suc scan_step_accepted accept_step_simps)
  qed (use Suc in \<open>simp_all add: scan_Suc scan_step_skipped scan_step_infeasible\<close>)
qed

section \<open>The planner in closed form\<close>

lemma size_t_of_int_count:
  assumes "cnt < 2147483648" and "2147483647 \<le> SIZE_MAX"
  shows "size_t_of_int SIZE_MAX (of_nat cnt) = cnt"
proof -
  have "sint (of_nat cnt :: c_int) = int cnt" using assms(1) by (rule sint_of_nat32)
  moreover have "int cnt mod (int SIZE_MAX + 1) = int cnt" using assms by simp
  ultimately show ?thesis by (simp add: size_t_of_int_def)
qed

lemma payload_size_no_overflow:
  assumes "\<not> (SIZE_MAX - 1) div param_idx_size < cnt" and "1 \<le> SIZE_MAX"
  shows "cnt * param_idx_size + 1 \<le> SIZE_MAX"
    and "(cnt * param_idx_size + 1) mod (SIZE_MAX + 1) = cnt * param_idx_size + 1"
    and "(cnt * param_idx_size) mod (SIZE_MAX + 1) = cnt * param_idx_size"
proof -
  have "cnt \<le> (SIZE_MAX - 1) div 6" using assms(1) by (simp add: param_idx_size_def)
  then have "cnt * 6 \<le> (SIZE_MAX - 1) div 6 * 6" by simp
  also have "\<dots> \<le> SIZE_MAX - 1" by simp
  finally have "cnt * 6 + 1 \<le> SIZE_MAX" using assms(2) by simp
  then show "cnt * param_idx_size + 1 \<le> SIZE_MAX"
    and "(cnt * param_idx_size + 1) mod (SIZE_MAX + 1) = cnt * param_idx_size + 1"
    and "(cnt * param_idx_size) mod (SIZE_MAX + 1) = cnt * param_idx_size"
    by (simp_all add: param_idx_size_def)
qed

lemma best_index_infeasible:
  assumes "\<not> list_all (\<lambda>c. \<not> infeasible (num_outputs pVTab) c) (aConstraint index_info)"
  shows "statement_vtab_best_index SIZE_MAX sqlite3_malloc64 mprintf_ok pVTab index_info =
     Some (SQLITE_CONSTRAINT, pVTab,
           index_info\<lparr>orderByConsumed := 0, estimatedCost := 1, estimatedRows := 1,
             aConstraintUsage := usage (scan (num_outputs pVTab) (aConstraint index_info)
                 (aConstraintUsage index_info) (length (aConstraint index_info)))\<rparr>)"
proof -
  from assms obtain i where "i < length (aConstraint index_info)"
      "infeasible (num_outputs pVTab) (aConstraint index_info ! i)"
    by (auto simp add: list_all_length)
  then have "rejected (scan (num_outputs pVTab) (aConstraint index_info)
                 (aConstraintUsage index_info) (length (aConstraint index_info)))"
    by (auto simp add: rejected_scan)
  then show ?thesis by (simp add: statement_vtab_best_index_def Let_def)
qed

lemma best_index_feasible:
  fixes pVTab index_info
  defines "n_out \<equiv> num_outputs pVTab" and "cs \<equiv> aConstraint index_info"
  defines "base \<equiv> index_info\<lparr>orderByConsumed := 0, estimatedCost := 1, estimatedRows := 1\<rparr>"
  defines "cnt \<equiv> length (col_indices n_out cs)"
  assumes pi: "planner_input pVTab index_info"
    and feas: "list_all (\<lambda>c. \<not> infeasible n_out c) cs"
    and sz: "2147483647 \<le> SIZE_MAX"
  shows "statement_vtab_best_index SIZE_MAX sqlite3_malloc64 mprintf_ok pVTab index_info =
     (if contiguous (col_indices n_out cs)
      then Some (SQLITE_OK, pVTab, base\<lparr>aConstraintUsage := direct_usage n_out cs\<rparr>)
      else if (SIZE_MAX - 1) div param_idx_size < cnt
      then
        (if mprintf_ok
         then Some (SQLITE_ERROR,
                    pVTab\<lparr>zErrMsg := Some (''Too many constraints to index: '' @ format_d (of_nat cnt))\<rparr>,
                    base\<lparr>aConstraintUsage := direct_usage n_out cs\<rparr>)
         else Some (SQLITE_NOMEM, pVTab\<lparr>zErrMsg := None\<rparr>, base\<lparr>aConstraintUsage := direct_usage n_out cs\<rparr>))
      else
        (case sqlite3_malloc64 (cnt * param_idx_size + 1) of
           None \<Rightarrow> Some (SQLITE_NOMEM, pVTab, base\<lparr>aConstraintUsage := direct_usage n_out cs, idxStr := None\<rparr>)
         | Some buf \<Rightarrow>
             if length buf = cnt * param_idx_size + 1
             then Some (SQLITE_OK, pVTab,
                        base\<lparr>aConstraintUsage := mapped_usage n_out cs,
                             idxStr := Some (mapped_payload n_out cs),
                             needToFreeIdxStr := 1\<rparr>)
             else statement_vtab_best_index SIZE_MAX sqlite3_malloc64 mprintf_ok pVTab index_info))"
proof -
  let ?us = "replicate (length cs) no_usage"
  let ?s = "scan n_out cs ?us (length cs)"
  have n0: "0 \<le>s n_out" and len: "length cs < 2147483648"
    and cols: "list_all (\<lambda>c. iColumn c <s 0x7FFFFFFF) cs"
    and us: "aConstraintUsage index_info = ?us"
    using pi by (simp_all add: planner_input_def n_out_def cs_def)
  have len': "length cs < 2 ^ 31" using len by simp
  have nr: "\<not> rejected ?s"
    using feas by (auto simp add: rejected_scan list_all_length)
  have u: "usage ?s = direct_usage n_out cs" using nr by (rule scan_usage_eq)
  have dc: "direct_cond ?s \<longleftrightarrow> contiguous (col_indices n_out cs)"
    using n0 cols len' nr by (rule direct_cond_iff)
  have cnt_eq: "cnt = length (filter (accepted n_out) cs)" by (simp add: cnt_def col_indices_def)
  have "length (filter (accepted n_out) cs) < 2147483648"
    using length_filter_le len by (rule le_less_trans)
  then have cnt_lt: "cnt < 2147483648" by (simp add: cnt_eq)
  have oc: "out_constraints ?s = of_nat cnt"
    using out_constraints_scan [of "length cs" cs n_out ?us] nr by (simp add: cnt_eq)
  have st: "size_t_of_int SIZE_MAX (of_nat cnt) = cnt"
    using cnt_lt sz by (rule size_t_of_int_count)
  have unfold: "statement_vtab_best_index SIZE_MAX sqlite3_malloc64 mprintf_ok pVTab index_info =
     (if contiguous (col_indices n_out cs) then Some (SQLITE_OK, pVTab, base\<lparr>aConstraintUsage := direct_usage n_out cs\<rparr>)
      else if (SIZE_MAX - 1) div param_idx_size < cnt
      then
        (if mprintf_ok
         then Some (SQLITE_ERROR,
                    pVTab\<lparr>zErrMsg := Some (''Too many constraints to index: '' @ format_d (of_nat cnt))\<rparr>,
                    base\<lparr>aConstraintUsage := direct_usage n_out cs\<rparr>)
         else Some (SQLITE_NOMEM, pVTab\<lparr>zErrMsg := None\<rparr>, base\<lparr>aConstraintUsage := direct_usage n_out cs\<rparr>))
      else
        (case sqlite3_malloc64 ((cnt * param_idx_size + 1) mod (SIZE_MAX + 1)) of
           None \<Rightarrow> Some (SQLITE_NOMEM, pVTab, base\<lparr>aConstraintUsage := direct_usage n_out cs, idxStr := None\<rparr>)
         | Some buf \<Rightarrow>
             (case m_idxStr (mapping (direct_usage n_out cs) buf (length cs)) of
                None \<Rightarrow> None
              | Some payload \<Rightarrow>
                  if (cnt * param_idx_size) mod (SIZE_MAX + 1) < length payload
                  then Some (SQLITE_OK, pVTab,
                             base\<lparr>aConstraintUsage := m_usage (mapping (direct_usage n_out cs) buf (length cs)),
                                  idxStr := Some (payload[(cnt * param_idx_size) mod (SIZE_MAX + 1) := 0]),
                                  needToFreeIdxStr := 1\<rparr>)
                  else None)))"
    unfolding statement_vtab_best_index_def Let_def
    unfolding n_out_def [symmetric] cs_def [symmetric] base_def [symmetric] us
    by (simp only: nr u dc oc st if_False)
  show ?thesis
  proof (cases "contiguous (col_indices n_out cs) \<or> (SIZE_MAX - 1) div param_idx_size < cnt")
    case True
    then show ?thesis unfolding unfold by auto
  next
    case False
    then have nc: "\<not> contiguous (col_indices n_out cs)" and fit: "\<not> (SIZE_MAX - 1) div param_idx_size < cnt"
      by simp_all
    have s1: "1 \<le> SIZE_MAX" using sz by simp
    note no = payload_size_no_overflow [OF fit s1]
    show ?thesis
    proof (cases "sqlite3_malloc64 (cnt * param_idx_size + 1)")
      case None
      then show ?thesis unfolding unfold no(2) no(3) using nc fit by simp
    next
      case (Some buf)
      show ?thesis
      proof (cases "length buf = cnt * param_idx_size + 1")
        case False
        then show ?thesis using nc fit Some by simp
      next
        case True
      then have lb: "length buf = length (filter (accepted n_out) cs) * 6 + 1"
        by (simp add: cnt_eq param_idx_size_def)
      obtain b where p: "m_idxStr (mapping (direct_usage n_out cs) buf (length cs))
          = Some (encode_all (targets n_out cs) @ [b])"
        using mapping_idxStr_eq [OF n0 cols lb] by blast
      have lt: "length (encode_all (targets n_out cs)) = cnt * param_idx_size"
        by (simp add: length_encode_all targets_def cnt_eq param_idx_size_def)
      have upd: "(encode_all (targets n_out cs) @ [b])[cnt * param_idx_size := 0] = mapped_payload n_out cs"
        using lt by (simp add: mapped_payload_def list_update_append)
      have mu: "m_usage (mapping (direct_usage n_out cs) buf (length cs)) = mapped_usage n_out cs"
        using n0 cols by (rule mapping_usage_eq)
      show ?thesis
        unfolding unfold no(2) no(3) Some using nc fit lt True
        by (simp add: p upd mu)
      qed
    qed
  qed
qed

lemma decode_slot_append:
  assumes "0 \<le>s x" and "length P = i * 6"
  shows "decode_param_idx i (P @ map (encode_byte x) [0..<6] @ R) = Some x"
proof -
  have "i * 6 + 6 \<le> length (P @ map (encode_byte x) [0..<6] @ R)" using assms(2) by simp
  then have "decode_param_idx i (P @ map (encode_byte x) [0..<6] @ R) =
      Some (decode_byte (encode_byte x 0) 0 OR decode_byte (encode_byte x 1) 1
        OR decode_byte (encode_byte x 2) 2 OR decode_byte (encode_byte x 3) 3
        OR decode_byte (encode_byte x 4) 4 OR decode_byte (encode_byte x 5) 5)"
    using assms(2) by (simp add: decode_param_idx_eq nth_append upt_6)
  also have "\<dots> = Some x"
    using reassemble [OF assms(1)] by (simp add: decode_encode_byte or.assoc)
  finally show ?thesis .
qed

lemma encode_all_append: "encode_all (xs @ ys) = encode_all xs @ encode_all ys"
  by (simp add: encode_all_def)

lemma decode_encode_all:
  assumes "r < length ts" and "0 \<le>s ts ! r"
  shows "decode_param_idx r (encode_all ts @ rest) = Some (ts ! r)"
proof -
  have "ts = take r ts @ [ts ! r] @ drop (Suc r) ts"
    using assms(1) by (simp add: id_take_nth_drop)
  then have "encode_all ts = encode_all (take r ts) @ map (encode_byte (ts ! r)) [0..<6] @ encode_all (drop (Suc r) ts)"
    by (metis encode_all_append encode_all_snoc append_Nil encode_all_def concat.simps(1) list.simps(8) append_assoc)
  then have "encode_all ts @ rest =
      encode_all (take r ts) @ map (encode_byte (ts ! r)) [0..<6] @ (encode_all (drop (Suc r) ts) @ rest)"
    by simp
  moreover have "length (encode_all (take r ts)) = r * 6"
    using assms(1) by (simp add: length_encode_all)
  ultimately show ?thesis using decode_slot_append [OF assms(2)] by simp
qed

lemma nth_filter_rank:
  assumes "i < length xs" and "P (xs ! i)"
  shows "filter P xs ! length (filter P (take i xs)) = xs ! i"
    and "length (filter P (take i xs)) < length (filter P xs)"
proof -
  have "xs = take i xs @ xs ! i # drop (Suc i) xs"
    using assms(1) by (rule id_take_nth_drop)
  then have "filter P xs = filter P (take i xs) @ xs ! i # filter P (drop (Suc i) xs)"
    using assms(2) by (metis filter.simps(2) filter_append)
  then show "filter P xs ! length (filter P (take i xs)) = xs ! i"
    and "length (filter P (take i xs)) < length (filter P xs)"
    by (simp_all add: nth_append)
qed

lemma targets_rank:
  assumes "i < length cs" and "accepted n_out (cs ! i)"
  shows "targets n_out cs ! rank n_out cs i = iColumn (cs ! i) - n_out + 1"
    and "rank n_out cs i < length (targets n_out cs)"
  using nth_filter_rank [of i cs "accepted n_out"] assms
  by (simp_all add: targets_def rank_def nth_map)

lemma decode_mapped_payload:
  assumes n0: "0 \<le>s n_out" and cols: "list_all (\<lambda>c. iColumn c <s 0x7FFFFFFF) cs"
    and i: "i < length cs" and a: "accepted n_out (cs ! i)"
  shows "decode_param_idx (rank n_out cs i) (mapped_payload n_out cs) = Some (iColumn (cs ! i) - n_out + 1)"
proof -
  have c: "iColumn (cs ! i) <s 0x7FFFFFFF" using cols i by (simp add: list_all_length)
  have "0 \<le>s iColumn (cs ! i) - n_out + 1" using accepted_index_facts(5) [OF a n0 c] .
  then have "0 \<le>s targets n_out cs ! rank n_out cs i" using targets_rank(1) [OF i a] by simp
  from decode_encode_all [OF targets_rank(2) [OF i a] this] show ?thesis
    using targets_rank(1) [OF i a] by (simp add: mapped_payload_def)
qed

lemma mapped_payload_bytes:
  "length (mapped_payload n_out cs) = length (col_indices n_out cs) * param_idx_size + 1"
  "k < length (col_indices n_out cs) * param_idx_size
     \<Longrightarrow> printable (mapped_payload n_out cs ! k) \<and> mapped_payload n_out cs ! k \<noteq> 0"
  "mapped_payload n_out cs ! (length (col_indices n_out cs) * param_idx_size) = 0"
proof -
  have l: "length (encode_all (targets n_out cs)) = length (col_indices n_out cs) * param_idx_size"
    by (simp add: length_encode_all targets_def col_indices_def param_idx_size_def)
  show "length (mapped_payload n_out cs) = length (col_indices n_out cs) * param_idx_size + 1"
    by (simp add: mapped_payload_def l)
  show "mapped_payload n_out cs ! (length (col_indices n_out cs) * param_idx_size) = 0"
    using l by (simp add: mapped_payload_def nth_append)
  have all: "\<forall>b \<in> set (encode_all ts). printable b \<and> b \<noteq> 0" for ts
    using encode_byte_printable by (auto simp add: encode_all_def)
  show "printable (mapped_payload n_out cs ! k) \<and> mapped_payload n_out cs ! k \<noteq> 0"
    if k: "k < length (col_indices n_out cs) * param_idx_size"
  proof -
    have "k < length (encode_all (targets n_out cs))" using k l by simp
    then have "encode_all (targets n_out cs) ! k \<in> set (encode_all (targets n_out cs))"
      by (rule nth_mem)
    then have "printable (encode_all (targets n_out cs) ! k) \<and> encode_all (targets n_out cs) ! k \<noteq> 0"
      using all by blast
    then show ?thesis using k l by (simp add: mapped_payload_def nth_append)
  qed
qed

lemma scan_feasible:
  assumes pi: "planner_input pVTab index_info"
    and feas: "list_all (\<lambda>c. \<not> infeasible (num_outputs pVTab) c) (aConstraint index_info)"
  defines "s \<equiv> scan (num_outputs pVTab) (aConstraint index_info) (aConstraintUsage index_info)
                (length (aConstraint index_info))"
  shows "\<not> rejected s"
    and "usage s = direct_usage (num_outputs pVTab) (aConstraint index_info)"
    and "direct_cond s \<longleftrightarrow> contiguous (col_indices (num_outputs pVTab) (aConstraint index_info))"
    and "out_constraints s = of_nat (length (col_indices (num_outputs pVTab) (aConstraint index_info)))"
proof -
  let ?cs = "aConstraint index_info" and ?n = "num_outputs pVTab"
  have n0: "0 \<le>s ?n" and len: "length ?cs < 2147483648"
    and cols: "list_all (\<lambda>c. iColumn c <s 0x7FFFFFFF) ?cs"
    and us: "aConstraintUsage index_info = replicate (length ?cs) no_usage"
    using pi by (simp_all add: planner_input_def)
  have len': "length ?cs < 2 ^ 31" using len by simp
  show nr: "\<not> rejected s"
    unfolding s_def using feas by (auto simp add: rejected_scan list_all_length)
  show "usage s = direct_usage ?n ?cs"
    using nr unfolding s_def us by (rule scan_usage_eq)
  show "direct_cond s \<longleftrightarrow> contiguous (col_indices ?n ?cs)"
    using n0 cols len' nr unfolding s_def us by (rule direct_cond_iff)
  show "out_constraints s = of_nat (length (col_indices ?n ?cs))"
    using out_constraints_scan [of "length ?cs" ?cs ?n "aConstraintUsage index_info"] nr
    by (simp add: s_def col_indices_def)
qed

lemma best_index_direct:
  assumes pi: "planner_input pVTab index_info"
    and feas: "list_all (\<lambda>c. \<not> infeasible (num_outputs pVTab) c) (aConstraint index_info)"
    and c: "contiguous (col_indices (num_outputs pVTab) (aConstraint index_info))"
  shows "statement_vtab_best_index SIZE_MAX sqlite3_malloc64 mprintf_ok pVTab index_info =
     Some (SQLITE_OK, pVTab,
           index_info\<lparr>orderByConsumed := 0, estimatedCost := 1, estimatedRows := 1,
                      aConstraintUsage := direct_usage (num_outputs pVTab) (aConstraint index_info)\<rparr>)"
  using scan_feasible(1,2,3) [OF pi feas] c
  by (simp add: statement_vtab_best_index_def Let_def)

lemma best_index_not_direct:
  assumes pi: "planner_input pVTab index_info"
    and feas: "list_all (\<lambda>c. \<not> infeasible (num_outputs pVTab) c) (aConstraint index_info)"
    and c: "\<not> contiguous (col_indices (num_outputs pVTab) (aConstraint index_info))"
    and r: "statement_vtab_best_index SIZE_MAX sqlite3_malloc64 mprintf_ok pVTab index_info = Some (rc, vt, ii)"
  shows "rc \<noteq> SQLITE_OK \<or> idxStr ii \<noteq> None"
  using scan_feasible(1,3) [OF pi feas] c r
  by (auto simp add: statement_vtab_best_index_def Let_def split: if_splits option.splits)

lemma best_index_usage:
  assumes pi: "planner_input pVTab index_info"
    and feas: "list_all (\<lambda>c. \<not> infeasible (num_outputs pVTab) c) (aConstraint index_info)"
    and r: "statement_vtab_best_index SIZE_MAX sqlite3_malloc64 mprintf_ok pVTab index_info = Some (rc, vt, ii)"
  shows "aConstraintUsage ii = direct_usage (num_outputs pVTab) (aConstraint index_info)
       \<or> aConstraintUsage ii = mapped_usage (num_outputs pVTab) (aConstraint index_info)"
proof -
  have n0: "0 \<le>s num_outputs pVTab"
    and cols: "list_all (\<lambda>c. iColumn c <s 0x7FFFFFFF) (aConstraint index_info)"
    using pi by (simp_all add: planner_input_def)
  note mu = mapping_usage_eq [OF n0 cols]
  show ?thesis
    using scan_feasible(1,2) [OF pi feas] r
    by (auto simp add: statement_vtab_best_index_def Let_def mu split: if_splits option.splits)
qed

lemma usage_entries:
  assumes n0: "0 \<le>s n_out" and cols: "list_all (\<lambda>c. iColumn c <s 0x7FFFFFFF) cs"
    and len: "length cs < 2147483648" and i: "i < length cs"
  shows "accepted n_out (cs ! i) \<Longrightarrow> direct_usage n_out cs ! i = \<lparr>argvIndex = iColumn (cs ! i) - n_out + 1, omit = 1\<rparr>"
    and "accepted n_out (cs ! i) \<Longrightarrow> sint (argvIndex (direct_usage n_out cs ! i)) = int (col_index n_out (cs ! i)) + 1"
    and "\<not> accepted n_out (cs ! i) \<Longrightarrow> direct_usage n_out cs ! i = no_usage"
    and "accepted n_out (cs ! i) \<Longrightarrow> mapped_usage n_out cs ! i = \<lparr>argvIndex = of_nat (rank n_out cs i + 1), omit = 1\<rparr>"
    and "accepted n_out (cs ! i) \<Longrightarrow> sint (argvIndex (mapped_usage n_out cs ! i)) = int (rank n_out cs i) + 1"
    and "\<not> accepted n_out (cs ! i) \<Longrightarrow> mapped_usage n_out cs ! i = no_usage"
proof -
  have c: "iColumn (cs ! i) <s 0x7FFFFFFF" using cols i by (simp add: list_all_length)
  show "accepted n_out (cs ! i) \<Longrightarrow> direct_usage n_out cs ! i = \<lparr>argvIndex = iColumn (cs ! i) - n_out + 1, omit = 1\<rparr>"
    and "\<not> accepted n_out (cs ! i) \<Longrightarrow> direct_usage n_out cs ! i = no_usage"
    using i by (simp_all add: direct_usage_def direct_entry_def)
  show "accepted n_out (cs ! i) \<Longrightarrow> sint (argvIndex (direct_usage n_out cs ! i)) = int (col_index n_out (cs ! i)) + 1"
    using i accepted_index_facts(2) [OF _ n0 c] by (simp add: direct_usage_def direct_entry_def)
  show "accepted n_out (cs ! i) \<Longrightarrow> mapped_usage n_out cs ! i = \<lparr>argvIndex = of_nat (rank n_out cs i + 1), omit = 1\<rparr>"
    and "\<not> accepted n_out (cs ! i) \<Longrightarrow> mapped_usage n_out cs ! i = no_usage"
    using i by (simp_all add: mapped_usage_def)
  show "sint (argvIndex (mapped_usage n_out cs ! i)) = int (rank n_out cs i) + 1" if a: "accepted n_out (cs ! i)"
  proof -
    have "rank n_out cs i < length (filter (accepted n_out) cs)"
      using nth_filter_rank(2) [of i cs "accepted n_out"] i a by (simp add: rank_def)
    moreover have "length (filter (accepted n_out) cs) < 2147483648"
      using length_filter_le len by (rule le_less_trans)
    ultimately have "rank n_out cs i + 1 < 2147483648" by simp
    then have "sint (of_nat (rank n_out cs i + 1) :: c_int) = int (rank n_out cs i + 1)"
      by (rule sint_of_nat32)
    then show ?thesis using i a by (simp add: mapped_usage_def)
  qed
qed

section \<open>The planner's plans\<close>

lemma direct_usage_none:
  "col_indices n_out cs = [] \<Longrightarrow> direct_usage n_out cs = replicate (length cs) no_usage"
proof -
  assume "col_indices n_out cs = []"
  then have "filter (accepted n_out) cs = []" by (simp add: col_indices_def)
  then have "\<forall>c \<in> set cs. \<not> accepted n_out c" by (simp add: filter_empty_conv)
  then show ?thesis
    by (intro nth_equalityI) (simp_all add: direct_usage_def direct_entry_def)
qed

text \<open>
  C1. For every constraint set that the planner does not reject: if no constraint is
  accepted, planning succeeds, the usage array stays zero (no bindings) and there is no
  mapping payload; if the parameter indices of the accepted constraints are exactly
  \<open>0, ..., n - 1\<close> for the number \<open>n \<le> 64\<close> of accepted constraints (the indices 0 to 63
  are the ones the bitmask tracks), planning succeeds as a direct plan: every accepted
  constraint gets the argv position \<open>col_index + 1\<close>, every other entry stays zero, and
  there is no mapping payload. In every other case, in particular with more than 64
  accepted constraints, the result is not a direct plan.
\<close>

theorem direct_plan:
  assumes "planner_input pVTab index_info"
    and "list_all (\<lambda>c. \<not> infeasible (num_outputs pVTab) c) (aConstraint index_info)"
  shows "(col_indices (num_outputs pVTab) (aConstraint index_info) = [] \<longrightarrow>
            statement_vtab_best_index SIZE_MAX sqlite3_malloc64 mprintf_ok pVTab index_info =
              Some (SQLITE_OK, pVTab,
                    index_info\<lparr>orderByConsumed := 0, estimatedCost := 1, estimatedRows := 1\<rparr>))
       \<and> (contiguous (col_indices (num_outputs pVTab) (aConstraint index_info)) \<longrightarrow>
            statement_vtab_best_index SIZE_MAX sqlite3_malloc64 mprintf_ok pVTab index_info =
              Some (SQLITE_OK, pVTab,
                    index_info\<lparr>orderByConsumed := 0, estimatedCost := 1, estimatedRows := 1,
                      aConstraintUsage := direct_usage (num_outputs pVTab) (aConstraint index_info)\<rparr>)
            \<and> idxStr index_info = None \<and> needToFreeIdxStr index_info = 0
            \<and> (\<forall>i < length (aConstraint index_info).
                  if accepted (num_outputs pVTab) (aConstraint index_info ! i)
                  then direct_usage (num_outputs pVTab) (aConstraint index_info) ! i =
                         \<lparr>argvIndex = iColumn (aConstraint index_info ! i) - num_outputs pVTab + 1, omit = 1\<rparr>
                       \<and> sint (argvIndex (direct_usage (num_outputs pVTab) (aConstraint index_info) ! i)) =
                           int (col_index (num_outputs pVTab) (aConstraint index_info ! i)) + 1
                  else direct_usage (num_outputs pVTab) (aConstraint index_info) ! i = no_usage))
       \<and> (\<not> contiguous (col_indices (num_outputs pVTab) (aConstraint index_info)) \<longrightarrow>
            (\<forall>rc vt ii. statement_vtab_best_index SIZE_MAX sqlite3_malloc64 mprintf_ok pVTab index_info =
                           Some (rc, vt, ii)
                 \<longrightarrow> rc \<noteq> SQLITE_OK \<or> idxStr ii \<noteq> None))"
proof -
  let ?n = "num_outputs pVTab" and ?cs = "aConstraint index_info"
  let ?r = "statement_vtab_best_index SIZE_MAX sqlite3_malloc64 mprintf_ok pVTab index_info"
  have n0: "0 \<le>s ?n" and len: "length ?cs < 2147483648"
    and cols: "list_all (\<lambda>c. iColumn c <s 0x7FFFFFFF) ?cs"
    and us: "aConstraintUsage index_info = replicate (length ?cs) no_usage"
    and str: "idxStr index_info = None" "needToFreeIdxStr index_info = 0"
    using assms(1) by (simp_all add: planner_input_def)
  have none: "?r = Some (SQLITE_OK, pVTab,
                    index_info\<lparr>orderByConsumed := 0, estimatedCost := 1, estimatedRows := 1\<rparr>)"
    if e: "col_indices ?n ?cs = []"
  proof -
    have "contiguous (col_indices ?n ?cs)" using e by (simp add: contiguous_def)
    from best_index_direct [OF assms this]
    have "?r = Some (SQLITE_OK, pVTab,
           index_info\<lparr>orderByConsumed := 0, estimatedCost := 1, estimatedRows := 1,
                      aConstraintUsage := aConstraintUsage index_info\<rparr>)"
      by (simp add: direct_usage_none [OF e] us)
    then show ?thesis by simp
  qed
  have direct: "?r = Some (SQLITE_OK, pVTab,
                    index_info\<lparr>orderByConsumed := 0, estimatedCost := 1, estimatedRows := 1,
                      aConstraintUsage := direct_usage ?n ?cs\<rparr>)"
    if "contiguous (col_indices ?n ?cs)"
    using assms that by (rule best_index_direct)
  have entries: "\<forall>i < length ?cs.
        if accepted ?n (?cs ! i)
        then direct_usage ?n ?cs ! i = \<lparr>argvIndex = iColumn (?cs ! i) - ?n + 1, omit = 1\<rparr>
             \<and> sint (argvIndex (direct_usage ?n ?cs ! i)) = int (col_index ?n (?cs ! i)) + 1
        else direct_usage ?n ?cs ! i = no_usage"
    using usage_entries(1,2,3) [OF n0 cols len] by simp
  have other: "rc \<noteq> SQLITE_OK \<or> idxStr ii \<noteq> None"
    if "\<not> contiguous (col_indices ?n ?cs)" and "?r = Some (rc, vt, ii)" for rc vt ii
    using assms that by (rule best_index_not_direct)
  from none direct entries other str show ?thesis by blast
qed

theorem direct_plan_witness:
  "planner_input example_vtab (fresh_index_info [eq_constraint 2, eq_constraint 0, eq_constraint 1])
   \<and> list_all (\<lambda>c. \<not> infeasible (num_outputs example_vtab) c) [eq_constraint 2, eq_constraint 0, eq_constraint 1]
   \<and> col_indices (num_outputs example_vtab) [eq_constraint 2, eq_constraint 0, eq_constraint 1] = [1, 0]
   \<and> contiguous [1, 0]
   \<and> statement_vtab_best_index 18446744073709551615 example_malloc True example_vtab
        (fresh_index_info [eq_constraint 2, eq_constraint 0, eq_constraint 1])
      = Some (SQLITE_OK, example_vtab,
          \<lparr>aConstraint = [eq_constraint 2, eq_constraint 0, eq_constraint 1],
           aConstraintUsage = [\<lparr>argvIndex = 2, omit = 1\<rparr>, no_usage, \<lparr>argvIndex = 1, omit = 1\<rparr>],
           idxStr = None, needToFreeIdxStr = 0, orderByConsumed = 0, estimatedCost = 1, estimatedRows = 1\<rparr>)"
proof -
  let ?cs = "[eq_constraint 2, eq_constraint 0, eq_constraint 1]"
  have cs: "aConstraint (fresh_index_info ?cs) = ?cs" by (simp add: fresh_index_info_def)
  have pi: "planner_input example_vtab (fresh_index_info ?cs)"
    by (simp add: planner_input_def example_vtab_def fresh_index_info_def eq_constraint_def
        word_sle_eq word_sless_alt)
  have feas: "list_all (\<lambda>c. \<not> infeasible (num_outputs example_vtab) c) ?cs"
    by (simp add: infeasible_def skipped_def example_vtab_def eq_constraint_def)
  have ci: "col_indices (num_outputs example_vtab) ?cs = [1, 0]"
    by (simp add: col_indices_def col_index_def accepted_def skipped_def example_vtab_def
        eq_constraint_def word_sless_alt)
  have cont: "contiguous [1, 0]" by (auto simp add: contiguous_def)
  have du: "direct_usage (num_outputs example_vtab) ?cs
      = [\<lparr>argvIndex = 2, omit = 1\<rparr>, no_usage, \<lparr>argvIndex = 1, omit = 1\<rparr>]"
    by (simp add: direct_usage_def direct_entry_def accepted_def skipped_def example_vtab_def
        eq_constraint_def word_sless_alt)
  from direct_plan [of example_vtab "fresh_index_info ?cs" "18446744073709551615" example_malloc True]
    pi feas ci cont
  have "statement_vtab_best_index 18446744073709551615 example_malloc True example_vtab (fresh_index_info ?cs)
      = Some (SQLITE_OK, example_vtab,
              (fresh_index_info ?cs)\<lparr>orderByConsumed := 0, estimatedCost := 1, estimatedRows := 1,
                      aConstraintUsage := direct_usage (num_outputs example_vtab) ?cs\<rparr>)"
    by (simp add: cs)
  then have "statement_vtab_best_index 18446744073709551615 example_malloc True example_vtab (fresh_index_info ?cs)
      = Some (SQLITE_OK, example_vtab,
          \<lparr>aConstraint = ?cs,
           aConstraintUsage = [\<lparr>argvIndex = 2, omit = 1\<rparr>, no_usage, \<lparr>argvIndex = 1, omit = 1\<rparr>],
           idxStr = None, needToFreeIdxStr = 0, orderByConsumed = 0, estimatedCost = 1, estimatedRows = 1\<rparr>)"
    by (simp add: du) (simp add: fresh_index_info_def)
  with pi feas ci cont show ?thesis by blast
qed


text \<open>
  C2. For every constraint set that the planner does not reject and whose accepted
  parameter indices are not contiguous, when the payload fits and its allocation
  succeeds: the planner returns a mapped plan. Every accepted constraint gets the
  sequential argv position \<open>1, 2, 3, ...\<close> in the order of the array (one more than the
  number of accepted constraints before it), and decoding the payload at that
  constraint's slot returns its true parameter position \<open>col_index + 1\<close>. The payload has
  six printable bytes per accepted constraint and a final NUL. The witness plans the
  hidden columns 0 and 2 in both orders: the decoded positions are 1 and 3.
\<close>

theorem mapped_plan:
  assumes "planner_input pVTab index_info"
    and "list_all (\<lambda>c. \<not> infeasible (num_outputs pVTab) c) (aConstraint index_info)"
    and "2147483647 \<le> SIZE_MAX"
    and "\<not> contiguous (col_indices (num_outputs pVTab) (aConstraint index_info))"
    and "length (col_indices (num_outputs pVTab) (aConstraint index_info)) \<le> (SIZE_MAX - 1) div param_idx_size"
    and "sqlite3_malloc64 (length (col_indices (num_outputs pVTab) (aConstraint index_info)) * param_idx_size + 1) = Some buf"
    and "length buf = length (col_indices (num_outputs pVTab) (aConstraint index_info)) * param_idx_size + 1"
  shows "statement_vtab_best_index SIZE_MAX sqlite3_malloc64 mprintf_ok pVTab index_info =
           Some (SQLITE_OK, pVTab,
             index_info\<lparr>orderByConsumed := 0, estimatedCost := 1, estimatedRows := 1,
               aConstraintUsage := mapped_usage (num_outputs pVTab) (aConstraint index_info),
               idxStr := Some (mapped_payload (num_outputs pVTab) (aConstraint index_info)),
               needToFreeIdxStr := 1\<rparr>)
       \<and> (\<forall>i < length (aConstraint index_info).
             if accepted (num_outputs pVTab) (aConstraint index_info ! i)
             then mapped_usage (num_outputs pVTab) (aConstraint index_info) ! i =
                    \<lparr>argvIndex = of_nat (rank (num_outputs pVTab) (aConstraint index_info) i + 1), omit = 1\<rparr>
                  \<and> sint (argvIndex (mapped_usage (num_outputs pVTab) (aConstraint index_info) ! i)) =
                      int (rank (num_outputs pVTab) (aConstraint index_info) i) + 1
                  \<and> decode_param_idx (rank (num_outputs pVTab) (aConstraint index_info) i)
                       (mapped_payload (num_outputs pVTab) (aConstraint index_info)) =
                      Some (iColumn (aConstraint index_info ! i) - num_outputs pVTab + 1)
                  \<and> sint (iColumn (aConstraint index_info ! i) - num_outputs pVTab + 1) =
                      int (col_index (num_outputs pVTab) (aConstraint index_info ! i)) + 1
             else mapped_usage (num_outputs pVTab) (aConstraint index_info) ! i = no_usage)
       \<and> length (mapped_payload (num_outputs pVTab) (aConstraint index_info)) =
           length (col_indices (num_outputs pVTab) (aConstraint index_info)) * param_idx_size + 1
       \<and> (\<forall>k < length (col_indices (num_outputs pVTab) (aConstraint index_info)) * param_idx_size.
             printable (mapped_payload (num_outputs pVTab) (aConstraint index_info) ! k)
             \<and> mapped_payload (num_outputs pVTab) (aConstraint index_info) ! k \<noteq> 0)
       \<and> mapped_payload (num_outputs pVTab) (aConstraint index_info)
             ! (length (col_indices (num_outputs pVTab) (aConstraint index_info)) * param_idx_size) = 0"
proof -
  let ?n = "num_outputs pVTab" and ?cs = "aConstraint index_info"
  have n0: "0 \<le>s ?n" and len: "length ?cs < 2147483648"
    and cols: "list_all (\<lambda>c. iColumn c <s 0x7FFFFFFF) ?cs"
    using assms(1) by (simp_all add: planner_input_def)
  have r: "statement_vtab_best_index SIZE_MAX sqlite3_malloc64 mprintf_ok pVTab index_info =
           Some (SQLITE_OK, pVTab,
             index_info\<lparr>orderByConsumed := 0, estimatedCost := 1, estimatedRows := 1,
               aConstraintUsage := mapped_usage ?n ?cs,
               idxStr := Some (mapped_payload ?n ?cs), needToFreeIdxStr := 1\<rparr>)"
    using best_index_feasible [OF assms(1,2,3), of sqlite3_malloc64 mprintf_ok] assms(4,5,6,7) by simp
  have e: "\<forall>i < length ?cs.
             if accepted ?n (?cs ! i)
             then mapped_usage ?n ?cs ! i = \<lparr>argvIndex = of_nat (rank ?n ?cs i + 1), omit = 1\<rparr>
                  \<and> sint (argvIndex (mapped_usage ?n ?cs ! i)) = int (rank ?n ?cs i) + 1
                  \<and> decode_param_idx (rank ?n ?cs i) (mapped_payload ?n ?cs) = Some (iColumn (?cs ! i) - ?n + 1)
                  \<and> sint (iColumn (?cs ! i) - ?n + 1) = int (col_index ?n (?cs ! i)) + 1
             else mapped_usage ?n ?cs ! i = no_usage"
  proof (intro allI impI)
    fix i assume i: "i < length ?cs"
    have c: "iColumn (?cs ! i) <s 0x7FFFFFFF" using cols i by (simp add: list_all_length)
    show "if accepted ?n (?cs ! i)
             then mapped_usage ?n ?cs ! i = \<lparr>argvIndex = of_nat (rank ?n ?cs i + 1), omit = 1\<rparr>
                  \<and> sint (argvIndex (mapped_usage ?n ?cs ! i)) = int (rank ?n ?cs i) + 1
                  \<and> decode_param_idx (rank ?n ?cs i) (mapped_payload ?n ?cs) = Some (iColumn (?cs ! i) - ?n + 1)
                  \<and> sint (iColumn (?cs ! i) - ?n + 1) = int (col_index ?n (?cs ! i)) + 1
             else mapped_usage ?n ?cs ! i = no_usage"
      using usage_entries(4,5,6) [OF n0 cols len i] decode_mapped_payload [OF n0 cols i]
        accepted_index_facts(2) [OF _ n0 c]
      by simp
  qed
  from r e mapped_payload_bytes [where n_out = ?n and cs = ?cs] show ?thesis by blast
qed

theorem mapped_plan_witness:
  "planner_input example_vtab (fresh_index_info [eq_constraint 1, eq_constraint 3])
   \<and> list_all (\<lambda>c. \<not> infeasible (num_outputs example_vtab) c) [eq_constraint 1, eq_constraint 3]
   \<and> (2147483647 :: nat) \<le> 18446744073709551615
   \<and> col_indices (num_outputs example_vtab) [eq_constraint 1, eq_constraint 3] = [0, 2]
   \<and> \<not> contiguous [0, 2]
   \<and> example_malloc 13 = Some (replicate 13 0xAA)
   \<and> statement_vtab_best_index 18446744073709551615 example_malloc True example_vtab
        (fresh_index_info [eq_constraint 1, eq_constraint 3])
      = Some (SQLITE_OK, example_vtab,
          \<lparr>aConstraint = [eq_constraint 1, eq_constraint 3],
           aConstraintUsage = [\<lparr>argvIndex = 1, omit = 1\<rparr>, \<lparr>argvIndex = 2, omit = 1\<rparr>],
           idxStr = Some [34, 33, 33, 33, 33, 33, 36, 33, 33, 33, 33, 33, 0],
           needToFreeIdxStr = 1, orderByConsumed = 0, estimatedCost = 1, estimatedRows = 1\<rparr>)
   \<and> decode_param_idx 0 [34, 33, 33, 33, 33, 33, 36, 33, 33, 33, 33, 33, 0] = Some 1
   \<and> decode_param_idx 1 [34, 33, 33, 33, 33, 33, 36, 33, 33, 33, 33, 33, 0] = Some 3
   \<and> planner_input example_vtab (fresh_index_info [eq_constraint 3, eq_constraint 1])
   \<and> list_all (\<lambda>c. \<not> infeasible (num_outputs example_vtab) c) [eq_constraint 3, eq_constraint 1]
   \<and> col_indices (num_outputs example_vtab) [eq_constraint 3, eq_constraint 1] = [2, 0]
   \<and> \<not> contiguous [2, 0]
   \<and> statement_vtab_best_index 18446744073709551615 example_malloc True example_vtab
        (fresh_index_info [eq_constraint 3, eq_constraint 1])
      = Some (SQLITE_OK, example_vtab,
          \<lparr>aConstraint = [eq_constraint 3, eq_constraint 1],
           aConstraintUsage = [\<lparr>argvIndex = 1, omit = 1\<rparr>, \<lparr>argvIndex = 2, omit = 1\<rparr>],
           idxStr = Some [36, 33, 33, 33, 33, 33, 34, 33, 33, 33, 33, 33, 0],
           needToFreeIdxStr = 1, orderByConsumed = 0, estimatedCost = 1, estimatedRows = 1\<rparr>)
   \<and> decode_param_idx 0 [36, 33, 33, 33, 33, 33, 34, 33, 33, 33, 33, 33, 0] = Some 3
   \<and> decode_param_idx 1 [36, 33, 33, 33, 33, 33, 34, 33, 33, 33, 33, 33, 0] = Some 1"
proof -
  let ?v = "num_outputs example_vtab"
  let ?cs = "[eq_constraint 1, eq_constraint 3]"
  let ?ds = "[eq_constraint 3, eq_constraint 1]"
  let ?p = "[34, 33, 33, 33, 33, 33, 36, 33, 33, 33, 33, 33, 0] :: c_char list"
  let ?q = "[36, 33, 33, 33, 33, 33, 34, 33, 33, 33, 33, 33, 0] :: c_char list"
  have acc: "accepted ?v (eq_constraint 1)" "accepted ?v (eq_constraint 3)"
    by (simp_all add: accepted_def skipped_def example_vtab_def eq_constraint_def word_sless_alt)
  have ci: "col_index ?v (eq_constraint 1) = 0" "col_index ?v (eq_constraint 3) = 2"
    by (simp_all add: col_index_def example_vtab_def eq_constraint_def)
  have inf: "\<not> infeasible ?v (eq_constraint 1)" "\<not> infeasible ?v (eq_constraint 3)"
    by (simp_all add: infeasible_def eq_constraint_def)
  have cs: "aConstraint (fresh_index_info xs) = xs" for xs by (simp add: fresh_index_info_def)
  have sz: "(2147483647 :: nat) \<le> 18446744073709551615" by simp
  have al: "example_malloc 13 = Some (replicate 13 0xAA)" by (simp add: example_malloc_def)
  have pi1: "planner_input example_vtab (fresh_index_info ?cs)"
    and pi2: "planner_input example_vtab (fresh_index_info ?ds)"
    by (simp_all add: planner_input_def example_vtab_def fresh_index_info_def eq_constraint_def
        word_sle_eq word_sless_alt)
  have feas1: "list_all (\<lambda>c. \<not> infeasible ?v c) ?cs"
    and feas2: "list_all (\<lambda>c. \<not> infeasible ?v c) ?ds"
    using inf by simp_all
  have cis1: "col_indices ?v ?cs = [0, 2]" and cis2: "col_indices ?v ?ds = [2, 0]"
    using acc ci by (simp_all add: col_indices_def)
  have nc1: "\<not> contiguous [0, 2]" and nc2: "\<not> contiguous [2, 0]"
    by (auto simp add: contiguous_def)
  have mu: "mapped_usage ?v ?cs = [\<lparr>argvIndex = 1, omit = 1\<rparr>, \<lparr>argvIndex = 2, omit = 1\<rparr>]"
      "mapped_usage ?v ?ds = [\<lparr>argvIndex = 1, omit = 1\<rparr>, \<lparr>argvIndex = 2, omit = 1\<rparr>]"
    using acc by (simp_all add: mapped_usage_def rank_def upt_rec)
  have rk: "rank ?v ?cs 0 = 0" "rank ?v ?cs (Suc 0) = Suc 0" "rank ?v ?ds 0 = 0" "rank ?v ?ds (Suc 0) = Suc 0"
    using acc by (simp_all add: rank_def)
  have mp: "mapped_payload ?v ?cs = ?p" "mapped_payload ?v ?ds = ?q"
    using acc by (simp_all add: mapped_payload_def targets_def encode_all_def upt_6 encode_byte_def
        example_vtab_def eq_constraint_def)
  have t: "iColumn (eq_constraint 1) - ?v + 1 = 1" "iColumn (eq_constraint 3) - ?v + 1 = 3"
    by (simp_all add: example_vtab_def eq_constraint_def)
  have base: "(fresh_index_info xs)\<lparr>orderByConsumed := 0, estimatedCost := 1, estimatedRows := 1,
               aConstraintUsage := [\<lparr>argvIndex = 1, omit = 1\<rparr>, \<lparr>argvIndex = 2, omit = 1\<rparr>],
               idxStr := Some pl, needToFreeIdxStr := 1\<rparr>
      = \<lparr>aConstraint = xs,
           aConstraintUsage = [\<lparr>argvIndex = 1, omit = 1\<rparr>, \<lparr>argvIndex = 2, omit = 1\<rparr>],
           idxStr = Some pl, needToFreeIdxStr = 1, orderByConsumed = 0, estimatedCost = 1, estimatedRows = 1\<rparr>"
    for xs pl by (simp add: fresh_index_info_def)
  have feas1': "list_all (\<lambda>c. \<not> infeasible ?v c) (aConstraint (fresh_index_info ?cs))"
    using feas1 by (simp add: cs)
  have nc1': "\<not> contiguous (col_indices ?v (aConstraint (fresh_index_info ?cs)))"
    using nc1 by (simp add: cs cis1)
  have fit1': "length (col_indices ?v (aConstraint (fresh_index_info ?cs)))
      \<le> (18446744073709551615 - 1) div param_idx_size"
    by (simp add: cs cis1 param_idx_size_def)
  have al1': "example_malloc (length (col_indices ?v (aConstraint (fresh_index_info ?cs))) * param_idx_size + 1)
      = Some (replicate 13 0xAA)"
    by (simp add: cs cis1 param_idx_size_def example_malloc_def)
  have lb1': "length (replicate 13 (0xAA :: c_char))
      = length (col_indices ?v (aConstraint (fresh_index_info ?cs))) * param_idx_size + 1"
    by (simp add: cs cis1 param_idx_size_def)
  note M1 = mapped_plan [of example_vtab "fresh_index_info ?cs" "18446744073709551615" example_malloc
      "replicate 13 0xAA" True, OF pi1 feas1' sz nc1' fit1' al1' lb1', unfolded cs]
  have r1: "statement_vtab_best_index 18446744073709551615 example_malloc True example_vtab (fresh_index_info ?cs)
      = Some (SQLITE_OK, example_vtab,
          \<lparr>aConstraint = ?cs,
           aConstraintUsage = [\<lparr>argvIndex = 1, omit = 1\<rparr>, \<lparr>argvIndex = 2, omit = 1\<rparr>],
           idxStr = Some ?p, needToFreeIdxStr = 1, orderByConsumed = 0, estimatedCost = 1, estimatedRows = 1\<rparr>)"
    using M1 [THEN conjunct1] unfolding mu mp base .
  have d1: "decode_param_idx 0 ?p = Some 1" "decode_param_idx 1 ?p = Some 3"
    using M1 [THEN conjunct2, THEN conjunct1, THEN spec, of 0] M1 [THEN conjunct2, THEN conjunct1, THEN spec, of 1] acc
    by (simp_all add: rk t mp)
  have feas2': "list_all (\<lambda>c. \<not> infeasible ?v c) (aConstraint (fresh_index_info ?ds))"
    using feas2 by (simp add: cs)
  have nc2': "\<not> contiguous (col_indices ?v (aConstraint (fresh_index_info ?ds)))"
    using nc2 by (simp add: cs cis2)
  have fit2': "length (col_indices ?v (aConstraint (fresh_index_info ?ds)))
      \<le> (18446744073709551615 - 1) div param_idx_size"
    by (simp add: cs cis2 param_idx_size_def)
  have al2': "example_malloc (length (col_indices ?v (aConstraint (fresh_index_info ?ds))) * param_idx_size + 1)
      = Some (replicate 13 0xAA)"
    by (simp add: cs cis2 param_idx_size_def example_malloc_def)
  have lb2': "length (replicate 13 (0xAA :: c_char))
      = length (col_indices ?v (aConstraint (fresh_index_info ?ds))) * param_idx_size + 1"
    by (simp add: cs cis2 param_idx_size_def)
  note M2 = mapped_plan [of example_vtab "fresh_index_info ?ds" "18446744073709551615" example_malloc
      "replicate 13 0xAA" True, OF pi2 feas2' sz nc2' fit2' al2' lb2', unfolded cs]
  have r2: "statement_vtab_best_index 18446744073709551615 example_malloc True example_vtab (fresh_index_info ?ds)
      = Some (SQLITE_OK, example_vtab,
          \<lparr>aConstraint = ?ds,
           aConstraintUsage = [\<lparr>argvIndex = 1, omit = 1\<rparr>, \<lparr>argvIndex = 2, omit = 1\<rparr>],
           idxStr = Some ?q, needToFreeIdxStr = 1, orderByConsumed = 0, estimatedCost = 1, estimatedRows = 1\<rparr>)"
    using M2 [THEN conjunct1] unfolding mu mp base .
  have d2: "decode_param_idx 0 ?q = Some 3" "decode_param_idx 1 ?q = Some 1"
    using M2 [THEN conjunct2, THEN conjunct1, THEN spec, of 0] M2 [THEN conjunct2, THEN conjunct1, THEN spec, of 1] acc
    by (simp_all add: rk t mp)
  show ?thesis
    by (intro conjI) (fact pi1 feas1 sz cis1 nc1 al r1 d1 pi2 feas2 cis2 nc2 r2 d2)+
qed

lemma bound_usage_iff:
  assumes n0: "0 \<le>s n_out" and cols: "list_all (\<lambda>c. iColumn c <s 0x7FFFFFFF) cs"
    and len: "length cs < 2147483648" and i: "i < length cs"
  shows "argvIndex (direct_usage n_out cs ! i) \<noteq> 0 \<longleftrightarrow> accepted n_out (cs ! i)"
    and "argvIndex (mapped_usage n_out cs ! i) \<noteq> 0 \<longleftrightarrow> accepted n_out (cs ! i)"
proof -
  have c: "iColumn (cs ! i) <s 0x7FFFFFFF" using cols i by (simp add: list_all_length)
  show "argvIndex (direct_usage n_out cs ! i) \<noteq> 0 \<longleftrightarrow> accepted n_out (cs ! i)"
    using usage_entries(1,3) [OF n0 cols len i] accepted_index_facts(6) [OF _ n0 c]
    by (cases "accepted n_out (cs ! i)") simp_all
  show "argvIndex (mapped_usage n_out cs ! i) \<noteq> 0 \<longleftrightarrow> accepted n_out (cs ! i)"
  proof (cases "accepted n_out (cs ! i)")
    case True
    have "sint (argvIndex (mapped_usage n_out cs ! i)) \<noteq> 0"
      using usage_entries(5) [OF n0 cols len i True] by simp
    then have "argvIndex (mapped_usage n_out cs ! i) \<noteq> 0" by auto
    then show ?thesis using True by simp
  next
    case False
    then show ?thesis using usage_entries(6) [OF n0 cols len i] by simp
  qed
qed

lemma best_index_feasible_rc:
  assumes pi: "planner_input pVTab index_info"
    and feas: "list_all (\<lambda>c. \<not> infeasible (num_outputs pVTab) c) (aConstraint index_info)"
    and r: "statement_vtab_best_index SIZE_MAX sqlite3_malloc64 mprintf_ok pVTab index_info = Some (rc, vt, ii)"
  shows "rc = SQLITE_OK \<or> rc = SQLITE_ERROR \<or> rc = SQLITE_NOMEM"
  using scan_feasible(1) [OF pi feas] r
  by (auto simp add: statement_vtab_best_index_def Let_def split: if_splits option.splits)

text \<open>
  C3. A constraint whose operator is LIMIT or OFFSET, or whose column is below
  \<open>num_outputs\<close> (an output column), is passed over: its usage entry stays zero in
  every outcome, and it never makes the planner reject. The planner returns
  \<open>SQLITE_CONSTRAINT\<close> exactly when some constraint that is not passed over is not usable
  or not an equality, and then there is no payload; when there is no such constraint
  and the accepted indices are contiguous, it returns \<open>SQLITE_OK\<close>, whatever constraints
  it passed over. Whenever the planner returns \<open>SQLITE_OK\<close>, the entries with a non-zero
  argv position are exactly the usable equality constraints on hidden columns.
\<close>

theorem planner_classifies:
  assumes "planner_input pVTab index_info"
  shows "(\<not> list_all (\<lambda>c. \<not> infeasible (num_outputs pVTab) c) (aConstraint index_info) \<longrightarrow>
            (\<exists>ii. statement_vtab_best_index SIZE_MAX sqlite3_malloc64 mprintf_ok pVTab index_info =
                     Some (SQLITE_CONSTRAINT, pVTab, ii) \<and> idxStr ii = None))
       \<and> (list_all (\<lambda>c. \<not> infeasible (num_outputs pVTab) c) (aConstraint index_info)
            \<and> contiguous (col_indices (num_outputs pVTab) (aConstraint index_info)) \<longrightarrow>
            (\<exists>ii. statement_vtab_best_index SIZE_MAX sqlite3_malloc64 mprintf_ok pVTab index_info =
                     Some (SQLITE_OK, pVTab, ii) \<and> idxStr ii = None))
       \<and> (\<forall>rc vt ii.
            statement_vtab_best_index SIZE_MAX sqlite3_malloc64 mprintf_ok pVTab index_info = Some (rc, vt, ii) \<longrightarrow>
              length (aConstraintUsage ii) = length (aConstraint index_info)
            \<and> (\<forall>i < length (aConstraint index_info).
                  skipped (num_outputs pVTab) (aConstraint index_info ! i) \<longrightarrow> aConstraintUsage ii ! i = no_usage)
            \<and> (rc = SQLITE_CONSTRAINT \<longleftrightarrow>
                  \<not> list_all (\<lambda>c. \<not> infeasible (num_outputs pVTab) c) (aConstraint index_info))
            \<and> (rc = SQLITE_OK \<longrightarrow>
                  list_all (\<lambda>c. \<not> infeasible (num_outputs pVTab) c) (aConstraint index_info)
                \<and> (\<forall>i < length (aConstraint index_info).
                      (argvIndex (aConstraintUsage ii ! i) \<noteq> 0 \<longleftrightarrow>
                         accepted (num_outputs pVTab) (aConstraint index_info ! i))
                    \<and> (argvIndex (aConstraintUsage ii ! i) \<noteq> 0 \<longrightarrow>
                         usable (aConstraint index_info ! i) \<noteq> 0
                       \<and> op (aConstraint index_info ! i) = SQLITE_INDEX_CONSTRAINT_EQ
                       \<and> num_outputs pVTab \<le>s iColumn (aConstraint index_info ! i)))))"
proof -
  let ?n = "num_outputs pVTab" and ?cs = "aConstraint index_info"
  let ?r = "statement_vtab_best_index SIZE_MAX sqlite3_malloc64 mprintf_ok pVTab index_info"
  have n0: "0 \<le>s ?n" and len: "length ?cs < 2147483648"
    and cols: "list_all (\<lambda>c. iColumn c <s 0x7FFFFFFF) ?cs"
    and us: "aConstraintUsage index_info = replicate (length ?cs) no_usage"
    and str: "idxStr index_info = None"
    using assms by (simp_all add: planner_input_def)
  have rej: "?r = Some (SQLITE_CONSTRAINT, pVTab,
           index_info\<lparr>orderByConsumed := 0, estimatedCost := 1, estimatedRows := 1,
             aConstraintUsage := usage (scan ?n ?cs (aConstraintUsage index_info) (length ?cs))\<rparr>)"
    if "\<not> list_all (\<lambda>c. \<not> infeasible ?n c) ?cs"
    using that by (rule best_index_infeasible)
  have A: "\<exists>ii. ?r = Some (SQLITE_CONSTRAINT, pVTab, ii) \<and> idxStr ii = None"
    if "\<not> list_all (\<lambda>c. \<not> infeasible ?n c) ?cs"
    using rej [OF that] str by simp
  have D: "\<exists>ii. ?r = Some (SQLITE_OK, pVTab, ii) \<and> idxStr ii = None"
    if "list_all (\<lambda>c. \<not> infeasible ?n c) ?cs" "contiguous (col_indices ?n ?cs)"
    using best_index_direct [OF assms that, of SIZE_MAX sqlite3_malloc64 mprintf_ok] str by simp
  have acc_unfold: "usable c \<noteq> 0 \<and> op c = SQLITE_INDEX_CONSTRAINT_EQ \<and> ?n \<le>s iColumn c"
    if "accepted ?n c" for c
    using that by (auto simp add: accepted_def skipped_def word_sle_eq word_sless_alt)
  have B: "length (aConstraintUsage ii) = length ?cs
            \<and> (\<forall>i < length ?cs. skipped ?n (?cs ! i) \<longrightarrow> aConstraintUsage ii ! i = no_usage)
            \<and> (rc = SQLITE_CONSTRAINT \<longleftrightarrow> \<not> list_all (\<lambda>c. \<not> infeasible ?n c) ?cs)
            \<and> (rc = SQLITE_OK \<longrightarrow>
                  list_all (\<lambda>c. \<not> infeasible ?n c) ?cs
                \<and> (\<forall>i < length ?cs.
                      (argvIndex (aConstraintUsage ii ! i) \<noteq> 0 \<longleftrightarrow> accepted ?n (?cs ! i))
                    \<and> (argvIndex (aConstraintUsage ii ! i) \<noteq> 0 \<longrightarrow>
                         usable (?cs ! i) \<noteq> 0 \<and> op (?cs ! i) = SQLITE_INDEX_CONSTRAINT_EQ
                       \<and> ?n \<le>s iColumn (?cs ! i))))"
    if r: "?r = Some (rc, vt, ii)" for rc vt ii
  proof (cases "list_all (\<lambda>c. \<not> infeasible ?n c) ?cs")
    case False
    from rej [OF False] r
    have rc: "rc = SQLITE_CONSTRAINT"
      and u: "aConstraintUsage ii = usage (scan ?n ?cs (replicate (length ?cs) no_usage) (length ?cs))"
      by (auto simp add: us)
    have "aConstraintUsage ii ! i = no_usage" if "i < length ?cs" "skipped ?n (?cs ! i)" for i
    proof -
      have "\<not> accepted ?n (?cs ! i)" using that(2) by (simp add: accepted_def)
      then show ?thesis
        using usage_scan_not_accepted [of i "replicate (length ?cs) no_usage" ?n ?cs "length ?cs"] that(1)
        by (simp add: u)
    qed
    then show ?thesis using rc False by (simp add: u length_usage_scan)
  next
    case True
    have d: "aConstraintUsage ii = direct_usage ?n ?cs \<or> aConstraintUsage ii = mapped_usage ?n ?cs"
      using assms True r by (rule best_index_usage)
    have "rc = SQLITE_OK \<or> rc = SQLITE_ERROR \<or> rc = SQLITE_NOMEM"
      using assms True r by (rule best_index_feasible_rc)
    then have nc: "rc \<noteq> SQLITE_CONSTRAINT" by auto
    have "length (direct_usage ?n ?cs) = length ?cs" "length (mapped_usage ?n ?cs) = length ?cs"
      by (simp_all add: direct_usage_def mapped_usage_def)
    with d have l: "length (aConstraintUsage ii) = length ?cs" by auto
    have b: "\<forall>i < length ?cs. argvIndex (aConstraintUsage ii ! i) \<noteq> 0 \<longleftrightarrow> accepted ?n (?cs ! i)"
    proof (intro allI impI)
      fix i assume "i < length ?cs"
      from bound_usage_iff [OF n0 cols len this] d
      show "argvIndex (aConstraintUsage ii ! i) \<noteq> 0 \<longleftrightarrow> accepted ?n (?cs ! i)" by auto
    qed
    have s: "aConstraintUsage ii ! i = no_usage" if "i < length ?cs" "skipped ?n (?cs ! i)" for i
    proof -
      have na: "\<not> accepted ?n (?cs ! i)" using that(2) by (simp add: accepted_def)
      from d show ?thesis using usage_entries(3,6) [OF n0 cols len that(1) na] by auto
    qed
    from l b s True nc acc_unfold show ?thesis by blast
  qed
  from A D B show ?thesis by blast
qed

theorem planner_classifies_witness:
  "planner_input example_vtab
     (fresh_index_info [eq_constraint 1, lt_constraint 0,
        \<lparr>iColumn = 2, op = SQLITE_INDEX_CONSTRAINT_LIMIT, usable = 1\<rparr>, lt_constraint 2])
   \<and> planner_input example_vtab
     (fresh_index_info [eq_constraint 1, lt_constraint 0,
        \<lparr>iColumn = 2, op = SQLITE_INDEX_CONSTRAINT_LIMIT, usable = 1\<rparr>])
   \<and> skipped (num_outputs example_vtab) (lt_constraint 0)
   \<and> skipped (num_outputs example_vtab) \<lparr>iColumn = 2, op = SQLITE_INDEX_CONSTRAINT_LIMIT, usable = 1\<rparr>
   \<and> accepted (num_outputs example_vtab) (eq_constraint 1)
   \<and> infeasible (num_outputs example_vtab) (lt_constraint 2)
   \<and> contiguous (col_indices (num_outputs example_vtab) [eq_constraint 1, lt_constraint 0,
        \<lparr>iColumn = 2, op = SQLITE_INDEX_CONSTRAINT_LIMIT, usable = 1\<rparr>])
   \<and> (\<exists>ii. statement_vtab_best_index 18446744073709551615 example_malloc True example_vtab
          (fresh_index_info [eq_constraint 1, lt_constraint 0,
             \<lparr>iColumn = 2, op = SQLITE_INDEX_CONSTRAINT_LIMIT, usable = 1\<rparr>, lt_constraint 2])
        = Some (SQLITE_CONSTRAINT, example_vtab, ii)
        \<and> idxStr ii = None
        \<and> aConstraintUsage ii ! 1 = no_usage \<and> aConstraintUsage ii ! 2 = no_usage)
   \<and> (\<exists>ii. statement_vtab_best_index 18446744073709551615 example_malloc True example_vtab
          (fresh_index_info [eq_constraint 1, lt_constraint 0,
             \<lparr>iColumn = 2, op = SQLITE_INDEX_CONSTRAINT_LIMIT, usable = 1\<rparr>])
        = Some (SQLITE_OK, example_vtab, ii)
        \<and> idxStr ii = None
        \<and> argvIndex (aConstraintUsage ii ! 0) \<noteq> 0
        \<and> aConstraintUsage ii ! 1 = no_usage \<and> aConstraintUsage ii ! 2 = no_usage)"
proof -
  let ?v = "num_outputs example_vtab"
  let ?l = "\<lparr>iColumn = 2, op = SQLITE_INDEX_CONSTRAINT_LIMIT, usable = 1\<rparr> :: sqlite3_index_constraint"
  let ?cs = "[eq_constraint 1, lt_constraint 0, ?l, lt_constraint 2]"
  let ?ds = "[eq_constraint 1, lt_constraint 0, ?l]"
  let ?r = "statement_vtab_best_index 18446744073709551615 example_malloc True example_vtab (fresh_index_info ?cs)"
  let ?q = "statement_vtab_best_index 18446744073709551615 example_malloc True example_vtab (fresh_index_info ?ds)"
  have cs: "aConstraint (fresh_index_info xs) = xs" for xs by (simp add: fresh_index_info_def)
  have pi: "planner_input example_vtab (fresh_index_info ?cs)"
    by (simp add: planner_input_def example_vtab_def fresh_index_info_def eq_constraint_def
        lt_constraint_def word_sle_eq word_sless_alt)
  have pj: "planner_input example_vtab (fresh_index_info ?ds)"
    by (simp add: planner_input_def example_vtab_def fresh_index_info_def eq_constraint_def
        lt_constraint_def word_sle_eq word_sless_alt)
  have sk: "skipped ?v (lt_constraint 0)" "skipped ?v ?l"
    by (simp_all add: skipped_def example_vtab_def lt_constraint_def word_sless_alt)
  have ac: "accepted ?v (eq_constraint 1)"
    by (simp add: accepted_def skipped_def example_vtab_def eq_constraint_def word_sless_alt)
  have inf: "infeasible ?v (lt_constraint 2)"
    by (simp add: infeasible_def skipped_def example_vtab_def lt_constraint_def word_sless_alt)
  have nf: "\<not> list_all (\<lambda>c. \<not> infeasible ?v c) (aConstraint (fresh_index_info ?cs))"
    using inf by (simp add: cs)
  have fe: "list_all (\<lambda>c. \<not> infeasible ?v c) ?ds"
    using sk ac by (simp add: infeasible_def accepted_def)
  have ci: "col_indices ?v ?ds = [0]"
    using sk ac by (simp add: col_indices_def accepted_def)
      (simp add: col_index_def example_vtab_def eq_constraint_def)
  have co: "contiguous (col_indices ?v ?ds)"
    unfolding ci by (simp add: contiguous_def)
  note T = planner_classifies [of example_vtab "fresh_index_info ?cs" "18446744073709551615" example_malloc True,
      OF pi, unfolded cs]
  from T [THEN conjunct1] nf obtain ii where r: "?r = Some (SQLITE_CONSTRAINT, example_vtab, ii)"
    and s: "idxStr ii = None"
    by (auto simp add: cs)
  from T [THEN conjunct2, THEN conjunct2, THEN spec, THEN spec, THEN spec, THEN mp, OF r]
  have u: "\<forall>i < length ?cs. skipped ?v (?cs ! i) \<longrightarrow> aConstraintUsage ii ! i = no_usage"
    by blast
  have "aConstraintUsage ii ! 1 = no_usage" using u [THEN spec, of 1] sk by simp
  moreover have "aConstraintUsage ii ! 2 = no_usage" using u [THEN spec, of 2] sk by simp
  ultimately have R: "\<exists>ii. ?r = Some (SQLITE_CONSTRAINT, example_vtab, ii) \<and> idxStr ii = None
      \<and> aConstraintUsage ii ! 1 = no_usage \<and> aConstraintUsage ii ! 2 = no_usage"
    using r s by blast
  note U = planner_classifies [of example_vtab "fresh_index_info ?ds" "18446744073709551615" example_malloc True,
      OF pj, unfolded cs]
  from U [THEN conjunct2, THEN conjunct1] fe co
  obtain jj where q: "?q = Some (SQLITE_OK, example_vtab, jj)" and t: "idxStr jj = None"
    by blast
  from U [THEN conjunct2, THEN conjunct2, THEN spec, THEN spec, THEN spec, THEN mp, OF q]
  have w: "\<forall>i < length ?ds. skipped ?v (?ds ! i) \<longrightarrow> aConstraintUsage jj ! i = no_usage"
    and b: "\<forall>i < length ?ds. argvIndex (aConstraintUsage jj ! i) \<noteq> 0 \<longleftrightarrow> accepted ?v (?ds ! i)"
    by blast+
  have "aConstraintUsage jj ! 1 = no_usage" using w [THEN spec, of 1] sk by simp
  moreover have "aConstraintUsage jj ! 2 = no_usage" using w [THEN spec, of 2] sk by simp
  moreover have "argvIndex (aConstraintUsage jj ! 0) \<noteq> 0" using b [THEN spec, of 0] ac by simp
  ultimately have Q: "\<exists>ii. ?q = Some (SQLITE_OK, example_vtab, ii) \<and> idxStr ii = None
      \<and> argvIndex (aConstraintUsage ii ! 0) \<noteq> 0
      \<and> aConstraintUsage ii ! 1 = no_usage \<and> aConstraintUsage ii ! 2 = no_usage"
    using q t by blast
  from pi pj sk ac inf co R Q show ?thesis by blast
qed

lemma best_index_too_many:
  assumes pi: "planner_input pVTab index_info"
    and feas: "list_all (\<lambda>c. \<not> infeasible (num_outputs pVTab) c) (aConstraint index_info)"
    and sz: "2147483647 \<le> SIZE_MAX"
    and nc: "\<not> contiguous (col_indices (num_outputs pVTab) (aConstraint index_info))"
    and big: "(SIZE_MAX - 1) div param_idx_size < length (col_indices (num_outputs pVTab) (aConstraint index_info))"
  shows "statement_vtab_best_index SIZE_MAX sqlite3_malloc64 mprintf_ok pVTab index_info =
     (if mprintf_ok
      then Some (SQLITE_ERROR,
                 pVTab\<lparr>zErrMsg := Some (''Too many constraints to index: ''
                    @ format_d (of_nat (length (col_indices (num_outputs pVTab) (aConstraint index_info)))))\<rparr>,
                 index_info\<lparr>orderByConsumed := 0, estimatedCost := 1, estimatedRows := 1,
                   aConstraintUsage := direct_usage (num_outputs pVTab) (aConstraint index_info)\<rparr>)
      else Some (SQLITE_NOMEM, pVTab\<lparr>zErrMsg := None\<rparr>,
                 index_info\<lparr>orderByConsumed := 0, estimatedCost := 1, estimatedRows := 1,
                   aConstraintUsage := direct_usage (num_outputs pVTab) (aConstraint index_info)\<rparr>))"
proof -
  let ?cnt = "length (col_indices (num_outputs pVTab) (aConstraint index_info))"
  have "length (aConstraint index_info) < 2147483648" using pi by (simp add: planner_input_def)
  with length_filter_le have "length (filter (accepted (num_outputs pVTab)) (aConstraint index_info)) < 2147483648"
    by (rule le_less_trans)
  then have "?cnt < 2147483648" by (simp add: col_indices_def)
  then have st: "size_t_of_int SIZE_MAX (of_nat ?cnt) = ?cnt" using sz by (rule size_t_of_int_count)
  show ?thesis
    using scan_feasible [OF pi feas] nc big
    by (simp add: statement_vtab_best_index_def Let_def st)
qed

text \<open>
  C9. On the mapped path, when \<open>size_t\<close> holds every non-negative \<open>int\<close>: if the number
  of accepted constraints exceeds \<open>(SIZE_MAX - 1) / param_idx_size\<close>, the planner returns
  \<open>SQLITE_ERROR\<close> with the message \<open>Too many constraints to index: n\<close> (or
  \<open>SQLITE_NOMEM\<close> when the message cannot be allocated), whatever the allocator is, and
  \<open>idxStr\<close> stays NULL; otherwise the size \<open>n * param_idx_size + 1\<close> does not exceed
  \<open>SIZE_MAX\<close>, exactly this size is requested, and the payload fills the buffer.
\<close>

theorem payload_size_checked:
  assumes "planner_input pVTab index_info"
    and "list_all (\<lambda>c. \<not> infeasible (num_outputs pVTab) c) (aConstraint index_info)"
    and "2147483647 \<le> SIZE_MAX"
    and "\<not> contiguous (col_indices (num_outputs pVTab) (aConstraint index_info))"
  shows "((SIZE_MAX - 1) div param_idx_size < length (col_indices (num_outputs pVTab) (aConstraint index_info)) \<longrightarrow>
            idxStr index_info = None
          \<and> statement_vtab_best_index SIZE_MAX sqlite3_malloc64 mprintf_ok pVTab index_info =
             (if mprintf_ok
              then Some (SQLITE_ERROR,
                 pVTab\<lparr>zErrMsg := Some (''Too many constraints to index: ''
                    @ format_d (of_nat (length (col_indices (num_outputs pVTab) (aConstraint index_info)))))\<rparr>,
                 index_info\<lparr>orderByConsumed := 0, estimatedCost := 1, estimatedRows := 1,
                   aConstraintUsage := direct_usage (num_outputs pVTab) (aConstraint index_info)\<rparr>)
              else Some (SQLITE_NOMEM, pVTab\<lparr>zErrMsg := None\<rparr>,
                 index_info\<lparr>orderByConsumed := 0, estimatedCost := 1, estimatedRows := 1,
                   aConstraintUsage := direct_usage (num_outputs pVTab) (aConstraint index_info)\<rparr>)))
       \<and> (length (col_indices (num_outputs pVTab) (aConstraint index_info)) \<le> (SIZE_MAX - 1) div param_idx_size \<longrightarrow>
            length (col_indices (num_outputs pVTab) (aConstraint index_info)) * param_idx_size + 1 \<le> SIZE_MAX
          \<and> (sqlite3_malloc64 (length (col_indices (num_outputs pVTab) (aConstraint index_info)) * param_idx_size + 1) = None \<longrightarrow>
               statement_vtab_best_index SIZE_MAX sqlite3_malloc64 mprintf_ok pVTab index_info =
                 Some (SQLITE_NOMEM, pVTab,
                   index_info\<lparr>orderByConsumed := 0, estimatedCost := 1, estimatedRows := 1,
                     aConstraintUsage := direct_usage (num_outputs pVTab) (aConstraint index_info),
                     idxStr := None\<rparr>))
          \<and> (\<forall>buf. sqlite3_malloc64 (length (col_indices (num_outputs pVTab) (aConstraint index_info)) * param_idx_size + 1) = Some buf
                   \<and> length buf = length (col_indices (num_outputs pVTab) (aConstraint index_info)) * param_idx_size + 1 \<longrightarrow>
               statement_vtab_best_index SIZE_MAX sqlite3_malloc64 mprintf_ok pVTab index_info =
                 Some (SQLITE_OK, pVTab,
                   index_info\<lparr>orderByConsumed := 0, estimatedCost := 1, estimatedRows := 1,
                     aConstraintUsage := mapped_usage (num_outputs pVTab) (aConstraint index_info),
                     idxStr := Some (mapped_payload (num_outputs pVTab) (aConstraint index_info)),
                     needToFreeIdxStr := 1\<rparr>)
               \<and> length (mapped_payload (num_outputs pVTab) (aConstraint index_info)) = length buf))"
proof -
  let ?n = "num_outputs pVTab" and ?cs = "aConstraint index_info"
  let ?cnt = "length (col_indices ?n ?cs)"
  let ?r = "statement_vtab_best_index SIZE_MAX sqlite3_malloc64 mprintf_ok pVTab index_info"
  have str: "idxStr index_info = None" using assms(1) by (simp add: planner_input_def)
  note big = best_index_too_many [OF assms, of sqlite3_malloc64 mprintf_ok]
  have s1: "1 \<le> SIZE_MAX" using assms(3) by simp
  have fits: "?cnt * param_idx_size + 1 \<le> SIZE_MAX" if "?cnt \<le> (SIZE_MAX - 1) div param_idx_size"
    using payload_size_no_overflow(1) [of SIZE_MAX ?cnt] that s1 by simp
  have nomem: "?r = Some (SQLITE_NOMEM, pVTab,
                   index_info\<lparr>orderByConsumed := 0, estimatedCost := 1, estimatedRows := 1,
                     aConstraintUsage := direct_usage ?n ?cs, idxStr := None\<rparr>)"
    if "?cnt \<le> (SIZE_MAX - 1) div param_idx_size" and "sqlite3_malloc64 (?cnt * param_idx_size + 1) = None"
    using best_index_feasible [OF assms(1,2,3), of sqlite3_malloc64 mprintf_ok] that assms(4) by simp
  have ok: "?r = Some (SQLITE_OK, pVTab,
                   index_info\<lparr>orderByConsumed := 0, estimatedCost := 1, estimatedRows := 1,
                     aConstraintUsage := mapped_usage ?n ?cs,
                     idxStr := Some (mapped_payload ?n ?cs), needToFreeIdxStr := 1\<rparr>)
               \<and> length (mapped_payload ?n ?cs) = length buf"
    if "?cnt \<le> (SIZE_MAX - 1) div param_idx_size"
      and "sqlite3_malloc64 (?cnt * param_idx_size + 1) = Some buf \<and> length buf = ?cnt * param_idx_size + 1" for buf
    using best_index_feasible [OF assms(1,2,3), of sqlite3_malloc64 mprintf_ok] that assms(4)
    by (simp add: mapped_payload_bytes(1))
  from str big fits nomem ok show ?thesis by blast
qed

lemma not_contiguous_replicate: "2 \<le> n \<Longrightarrow> \<not> contiguous (replicate n k)"
proof
  assume n: "2 \<le> n" and c: "contiguous (replicate n k)"
  then have "{k} = {0..<n}" by (simp add: contiguous_def set_replicate_conv_if)
  moreover have "0 \<in> {0..<n}" "1 \<in> {0..<n}" using n by simp_all
  ultimately have "0 \<in> {k}" "1 \<in> {k}" by simp_all
  then show False by simp
qed

theorem payload_size_checked_witness:
  "planner_input example_vtab (fresh_index_info [eq_constraint 1, eq_constraint 3])
   \<and> list_all (\<lambda>c. \<not> infeasible (num_outputs example_vtab) c) [eq_constraint 1, eq_constraint 3]
   \<and> (2147483647 :: nat) \<le> 18446744073709551615
   \<and> \<not> contiguous (col_indices (num_outputs example_vtab) [eq_constraint 1, eq_constraint 3])
   \<and> length (col_indices (num_outputs example_vtab) [eq_constraint 1, eq_constraint 3])
        \<le> (18446744073709551615 - 1) div param_idx_size
   \<and> example_malloc 13 = Some (replicate 13 0xAA)
   \<and> statement_vtab_best_index 18446744073709551615 example_malloc True example_vtab
        (fresh_index_info [eq_constraint 1, eq_constraint 3])
      = Some (SQLITE_OK, example_vtab,
          \<lparr>aConstraint = [eq_constraint 1, eq_constraint 3],
           aConstraintUsage = [\<lparr>argvIndex = 1, omit = 1\<rparr>, \<lparr>argvIndex = 2, omit = 1\<rparr>],
           idxStr = Some [34, 33, 33, 33, 33, 33, 36, 33, 33, 33, 33, 33, 0],
           needToFreeIdxStr = 1, orderByConsumed = 0, estimatedCost = 1, estimatedRows = 1\<rparr>)
   \<and> planner_input example_vtab (fresh_index_info (replicate 715827883 (eq_constraint 1)))
   \<and> list_all (\<lambda>c. \<not> infeasible (num_outputs example_vtab) c) (replicate 715827883 (eq_constraint 1))
   \<and> (2147483647 :: nat) \<le> 4294967295
   \<and> \<not> contiguous (col_indices (num_outputs example_vtab) (replicate 715827883 (eq_constraint 1)))
   \<and> (4294967295 - 1) div param_idx_size
        < length (col_indices (num_outputs example_vtab) (replicate 715827883 (eq_constraint 1)))
   \<and> statement_vtab_best_index 4294967295 example_malloc True example_vtab
        (fresh_index_info (replicate 715827883 (eq_constraint 1)))
      = Some (SQLITE_ERROR,
          example_vtab\<lparr>zErrMsg := Some ''Too many constraints to index: 715827883''\<rparr>,
          \<lparr>aConstraint = replicate 715827883 (eq_constraint 1),
           aConstraintUsage = replicate 715827883 \<lparr>argvIndex = 1, omit = 1\<rparr>,
           idxStr = None, needToFreeIdxStr = 0, orderByConsumed = 0, estimatedCost = 1, estimatedRows = 1\<rparr>)"
proof -
  let ?cs = "[eq_constraint 1, eq_constraint 3]"
  let ?ds = "replicate 715827883 (eq_constraint 1)"
  have acc: "accepted (num_outputs example_vtab) (eq_constraint 1)"
      "accepted (num_outputs example_vtab) (eq_constraint 3)"
    by (simp_all add: accepted_def skipped_def example_vtab_def eq_constraint_def word_sless_alt)
  have ci: "col_index (num_outputs example_vtab) (eq_constraint 1) = 0"
      "col_index (num_outputs example_vtab) (eq_constraint 3) = 2"
    by (simp_all add: col_index_def example_vtab_def eq_constraint_def)
  have inf: "\<not> infeasible (num_outputs example_vtab) (eq_constraint 1)"
      "\<not> infeasible (num_outputs example_vtab) (eq_constraint 3)"
    by (simp_all add: infeasible_def eq_constraint_def)
  have cs [simp]: "aConstraint (fresh_index_info xs) = xs" for xs by (simp add: fresh_index_info_def)
  have pi1: "planner_input example_vtab (fresh_index_info ?cs)"
    by (simp add: planner_input_def example_vtab_def fresh_index_info_def eq_constraint_def
        word_sle_eq word_sless_alt)
  have feas1: "list_all (\<lambda>c. \<not> infeasible (num_outputs example_vtab) c) ?cs"
    using inf by simp
  have sz1: "(2147483647 :: nat) \<le> 18446744073709551615" by simp
  have cis1: "col_indices (num_outputs example_vtab) ?cs = [0, 2]"
    using acc ci by (simp add: col_indices_def)
  have nc1: "\<not> contiguous (col_indices (num_outputs example_vtab) ?cs)"
    unfolding cis1 by (auto simp add: contiguous_def)
  have fit1: "length (col_indices (num_outputs example_vtab) ?cs) \<le> (18446744073709551615 - 1) div param_idx_size"
    unfolding cis1 by (simp add: param_idx_size_def)
  have al1: "example_malloc 13 = Some (replicate 13 0xAA)" by (simp add: example_malloc_def)
  have mu1: "mapped_usage (num_outputs example_vtab) ?cs = [\<lparr>argvIndex = 1, omit = 1\<rparr>, \<lparr>argvIndex = 2, omit = 1\<rparr>]"
    using acc by (simp add: mapped_usage_def rank_def upt_rec)
  have mp1: "mapped_payload (num_outputs example_vtab) ?cs = [34, 33, 33, 33, 33, 33, 36, 33, 33, 33, 33, 33, 0]"
    using acc by (simp add: mapped_payload_def targets_def encode_all_def upt_6 encode_byte_def
        example_vtab_def eq_constraint_def)
  have r1: "statement_vtab_best_index 18446744073709551615 example_malloc True example_vtab (fresh_index_info ?cs)
      = Some (SQLITE_OK, example_vtab,
          \<lparr>aConstraint = ?cs,
           aConstraintUsage = [\<lparr>argvIndex = 1, omit = 1\<rparr>, \<lparr>argvIndex = 2, omit = 1\<rparr>],
           idxStr = Some [34, 33, 33, 33, 33, 33, 36, 33, 33, 33, 33, 33, 0],
           needToFreeIdxStr = 1, orderByConsumed = 0, estimatedCost = 1, estimatedRows = 1\<rparr>)"
    using payload_size_checked [OF pi1 _ sz1, of example_malloc True] feas1 nc1 fit1 al1
    by (simp add: cis1 param_idx_size_def mu1 mp1 fresh_index_info_def)
  have pi2: "planner_input example_vtab (fresh_index_info ?ds)"
    by (simp add: planner_input_def example_vtab_def fresh_index_info_def eq_constraint_def
        word_sle_eq word_sless_alt list_all_iff)
  have feas2: "list_all (\<lambda>c. \<not> infeasible (num_outputs example_vtab) c) ?ds"
    using inf by (simp add: list_all_iff)
  have sz2: "(2147483647 :: nat) \<le> 4294967295" by simp
  have cis2: "col_indices (num_outputs example_vtab) ?ds = replicate 715827883 0"
    using acc ci by (simp add: col_indices_def filter_replicate)
  have nc2: "\<not> contiguous (col_indices (num_outputs example_vtab) ?ds)"
    unfolding cis2 by (rule not_contiguous_replicate) simp
  have big2: "(4294967295 - 1) div param_idx_size < length (col_indices (num_outputs example_vtab) ?ds)"
    unfolding cis2 by (simp add: param_idx_size_def)
  have du2: "direct_usage (num_outputs example_vtab) ?ds = replicate 715827883 \<lparr>argvIndex = 1, omit = 1\<rparr>"
    using acc by (simp add: direct_usage_def direct_entry_def example_vtab_def eq_constraint_def)
  have fd: "format_d (of_nat 715827883) = ''715827883''"
    by (simp add: format_d_def word_sle_eq digit_def)
  have r2: "statement_vtab_best_index 4294967295 example_malloc True example_vtab (fresh_index_info ?ds)
      = Some (SQLITE_ERROR,
          example_vtab\<lparr>zErrMsg := Some ''Too many constraints to index: 715827883''\<rparr>,
          \<lparr>aConstraint = ?ds,
           aConstraintUsage = replicate 715827883 \<lparr>argvIndex = 1, omit = 1\<rparr>,
           idxStr = None, needToFreeIdxStr = 0, orderByConsumed = 0, estimatedCost = 1, estimatedRows = 1\<rparr>)"
    using payload_size_checked [OF pi2 _ sz2, of example_malloc True] feas2 nc2 big2 fd
    by (simp add: cis2 du2 fresh_index_info_def)
  from pi1 feas1 sz1 nc1 fit1 al1 r1 pi2 feas2 sz2 nc2 big2 r2 show ?thesis by blast
qed

section \<open>The cursor in closed form\<close>

lemma bind_value_facts:
  assumes "sqlite3_bind_value s idx v = (ret, s')"
  shows "exec s' = exec s" "row s' = row s" "program s' = program s" "columns s' = columns s"
    "readonly s' = readonly s" "map fst (parameters s') = map fst (parameters s)"
    "length (parameters s') = length (parameters s)"
    "set (bindings s') \<subseteq> insert v (set (bindings s))"
proof -
  show "exec s' = exec s" "row s' = row s" "program s' = program s" "columns s' = columns s"
    "readonly s' = readonly s" "length (parameters s') = length (parameters s)"
    using assms by (auto simp add: sqlite3_bind_value_def split: if_splits)
  show "map fst (parameters s') = map fst (parameters s)"
    using assms
    by (auto simp add: sqlite3_bind_value_def map_update list_eq_iff_nth_eq nth_list_update
        split: if_splits)
  have "bindings s' = bindings s \<or> bindings s' = (bindings s)[nat (sint idx) - 1 := v]"
    using assms by (auto simp add: sqlite3_bind_value_def bindings_def map_update split: if_splits)
  then show "set (bindings s') \<subseteq> insert v (set (bindings s))"
    using set_update_subset_insert [of "bindings s" "nat (sint idx) - 1" v] by auto
qed

lemma bind_args_facts:
  "bind_args idx_str vs i s = Some (ret, s') \<Longrightarrow>
     exec s' = exec s \<and> row s' = row s \<and> program s' = program s \<and> columns s' = columns s
   \<and> readonly s' = readonly s \<and> map fst (parameters s') = map fst (parameters s)
   \<and> length (parameters s') = length (parameters s)
   \<and> set (bindings s') \<subseteq> set (bindings s) \<union> set vs"
proof (induction vs arbitrary: i s)
  case Nil
  then show ?case by simp
next
  case (Cons v vs)
  from Cons.prems obtain t where t: "param_idx_of idx_str i = Some t"
    by (auto split: option.splits)
  obtain r1 s1 where b: "sqlite3_bind_value s t v = (r1, s1)" by (cases "sqlite3_bind_value s t v")
  note f = bind_value_facts [OF b]
  show ?case
  proof (cases "r1 = SQLITE_OK")
    case True
    with Cons.prems t b have "bind_args idx_str vs (i + 1) s1 = Some (ret, s')" by simp
    from Cons.IH [OF this] f show ?thesis by auto
  next
    case False
    with Cons.prems t b have "s' = s1" by simp
    with f show ?thesis by auto
  qed
qed

lemma step_row: "sqlite3_step s = (ret, s') \<Longrightarrow> (row s' \<noteq> None \<longleftrightarrow> ret = SQLITE_ROW) \<or> (ret = SQLITE_ROW \<and> row s' = None)"
  by (auto simp add: sqlite3_step_def split: option.splits prod.splits list.splits)

lemma filter_cases:
  assumes "statement_vtab_filter cur idxNum idx_str argv = Some (rc, c)"
  obtains (bind_failed) s where
      "bind_args idx_str argv 0 (sqlite3_clear_bindings (sqlite3_reset (stmt cur))) = Some (rc, s)"
      "rc \<noteq> SQLITE_OK" "c = cur\<lparr>rowid := 1, stmt := s\<rparr>"
  | (step_failed) s s' where
      "bind_args idx_str argv 0 (sqlite3_clear_bindings (sqlite3_reset (stmt cur))) = Some (SQLITE_OK, s)"
      "sqlite3_step s = (rc, s')" "rc \<noteq> SQLITE_ROW" "rc \<noteq> SQLITE_DONE"
      "c = cur\<lparr>rowid := 1, stmt := s'\<rparr>"
  | (stepped) s ret s' where
      "bind_args idx_str argv 0 (sqlite3_clear_bindings (sqlite3_reset (stmt cur))) = Some (SQLITE_OK, s)"
      "sqlite3_step s = (ret, s')" "ret = SQLITE_ROW \<or> ret = SQLITE_DONE" "rc = SQLITE_OK"
      "of_nat (length argv) \<le>s num_inputs (pVtab cur)"
      "(of_nat (length argv) :: c_int) = 0 \<or> length argv \<le> length (param_argv cur)"
      "c = cur\<lparr>rowid := 1, stmt := s', param_argc := of_nat (length argv),
            param_argv := (if (of_nat (length argv) :: c_int) = 0 then param_argv cur
                           else argv @ drop (length argv) (param_argv cur))\<rparr>"
proof -
  let ?b = "bind_args idx_str argv 0 (sqlite3_clear_bindings (sqlite3_reset (stmt cur)))"
  from assms obtain r1 s1 where b: "?b = Some (r1, s1)"
    by (auto simp add: statement_vtab_filter_def Let_def split: option.splits)
  show thesis
  proof (cases "r1 = SQLITE_OK")
    case False
    with assms b have "rc = r1" "c = cur\<lparr>rowid := 1, stmt := s1\<rparr>"
      by (auto simp add: statement_vtab_filter_def Let_def)
    with b False show thesis by (auto intro: bind_failed)
  next
    case True
    obtain r2 s2 where st: "sqlite3_step s1 = (r2, s2)" by (cases "sqlite3_step s1")
    show thesis
    proof (cases "r2 = SQLITE_ROW \<or> r2 = SQLITE_DONE")
      case False
      with assms b True st have "rc = r2" "c = cur\<lparr>rowid := 1, stmt := s2\<rparr>"
        by (auto simp add: statement_vtab_filter_def Let_def)
      with b True st False show thesis by (auto intro: step_failed)
    next
      case ok: True
      from assms b True st ok
      have "rc = SQLITE_OK" "of_nat (length argv) \<le>s num_inputs (pVtab cur)"
        "(of_nat (length argv) :: c_int) = 0 \<or> length argv \<le> length (param_argv cur)"
        "c = cur\<lparr>rowid := 1, stmt := s2, param_argc := of_nat (length argv),
            param_argv := (if (of_nat (length argv) :: c_int) = 0 then param_argv cur
                           else argv @ drop (length argv) (param_argv cur))\<rparr>"
        by (auto simp add: statement_vtab_filter_def Let_def split: if_splits)
      with b True st ok show thesis by (auto intro: stepped)
    qed
  qed
qed

lemma of_nat_eq_0_32: "n < 2147483648 \<Longrightarrow> (of_nat n :: c_int) = 0 \<longleftrightarrow> n = 0"
proof
  assume n: "n < 2147483648" and z: "(of_nat n :: c_int) = 0"
  have "sint (of_nat n :: c_int) = int n" using n by (rule sint_of_nat32)
  with z show "n = 0" by simp
qed simp

lemma reset_clear_facts:
  "exec (sqlite3_clear_bindings (sqlite3_reset s)) = None"
  "row (sqlite3_clear_bindings (sqlite3_reset s)) = None"
  "program (sqlite3_clear_bindings (sqlite3_reset s)) = program s"
  "columns (sqlite3_clear_bindings (sqlite3_reset s)) = columns s"
  "readonly (sqlite3_clear_bindings (sqlite3_reset s)) = readonly s"
  "map fst (parameters (sqlite3_clear_bindings (sqlite3_reset s))) = map fst (parameters s)"
  "length (parameters (sqlite3_clear_bindings (sqlite3_reset s))) = length (parameters s)"
  "bindings (sqlite3_clear_bindings (sqlite3_reset s)) = replicate (length (parameters s)) SQL_NULL"
  by (simp_all add: sqlite3_clear_bindings_def sqlite3_reset_def bindings_def comp_def map_replicate_const)

lemma step_facts:
  assumes "sqlite3_step s = (ret, s')"
  shows "program s' = program s" "columns s' = columns s" "readonly s' = readonly s"
    "parameters s' = parameters s" "bindings s' = bindings s"
    "ret \<noteq> SQLITE_ROW \<Longrightarrow> row s' = None \<and> exec s' = None"
  using assms
  by (auto simp add: sqlite3_step_def bindings_def split: option.splits prod.splits list.splits)

lemma filter_on_row:
  assumes f: "statement_vtab_filter c0 idxNum idx_str argv = Some (rc, c)"
    and r: "row (stmt c) \<noteq> None" and len: "length argv < 2147483648"
  shows "rc = SQLITE_OK \<and> retains c argv"
  using f
proof (cases rule: filter_cases)
  case (bind_failed s)
  from bind_args_facts [OF bind_failed(1)] have "row s = None" by (simp add: reset_clear_facts)
  with r bind_failed(3) show ?thesis by simp
next
  case (step_failed s s')
  from step_facts(6) [OF step_failed(2) step_failed(3)] r step_failed(5) show ?thesis by simp
next
  case (stepped s ret s')
  have z: "(of_nat (length argv) :: c_int) = 0 \<longleftrightarrow> length argv = 0"
    using len by (rule of_nat_eq_0_32)
  show ?thesis
  proof (cases "length argv = 0")
    case True
    with stepped(4,7) show ?thesis by (simp add: retains_def)
  next
    case False
    with stepped(6) z have "length argv \<le> length (param_argv c0)" by simp
    with stepped(4,7) z False len show ?thesis by (simp add: retains_def)
  qed
qed

lemma next_retains: "retains cur argv \<Longrightarrow> retains (snd (statement_vtab_next cur)) argv"
  by (simp add: retains_def statement_vtab_next_def split: prod.splits)

lemma column_retained:
  assumes n0: "0 \<le>s num_outputs (pVtab cur)" and r: "retains cur argv"
  shows "statement_vtab_column cur i =
     Some (SQLITE_OK,
           if i <s num_outputs (pVtab cur) then Some (sqlite3_column_value (stmt cur) i)
           else if nat (sint i - sint (num_outputs (pVtab cur))) < length argv
           then Some (argv ! nat (sint i - sint (num_outputs (pVtab cur))))
           else None)"
proof (cases "i <s num_outputs (pVtab cur)")
  case True
  then show ?thesis by (simp add: statement_vtab_column_def Let_def)
next
  case False
  let ?n = "num_outputs (pVtab cur)"
  have ge: "sint ?n \<le> sint i" using False by (simp add: word_sless_alt)
  have n: "0 \<le> sint ?n" using n0 by (simp add: word_sle_eq)
  have d: "sint (i - ?n) = sint i - sint ?n"
    using ge n sint_range32 [of i] sint_range32 [of ?n] by (intro sint_sub32) auto
  have len: "length argv < 2147483648" and pa: "param_argc cur = of_nat (length argv)"
    and le: "length argv \<le> length (param_argv cur)" and tk: "take (length argv) (param_argv cur) = argv"
    using r by (simp_all add: retains_def)
  have sp: "sint (param_argc cur) = int (length argv)" using len pa by (simp add: sint_of_nat32)
  have lt: "i - ?n <s param_argc cur \<longleftrightarrow> nat (sint i - sint ?n) < length argv"
    using d sp ge by (auto simp add: word_sless_alt)
  have nn: "0 \<le>s i - ?n" using d ge by (simp add: word_sle_eq)
  have nth: "param_argv cur ! k = argv ! k" if "k < length argv" for k
    using that tk nth_take [of k "length argv" "param_argv cur"] by simp
  show ?thesis
    using False lt nn le d nth by (auto simp add: statement_vtab_column_def Let_def)
qed

lemma column_value_row:
  "row s = Some r \<Longrightarrow> 0 \<le>s i \<Longrightarrow> nat (sint i) < length r \<Longrightarrow> sqlite3_column_value s i = r ! nat (sint i)"
  by (simp add: sqlite3_column_value_def)
































lemma bindings_subset:
  assumes "bind_args idx_str argv 0 (sqlite3_clear_bindings (sqlite3_reset s)) = Some (rc, s')"
  shows "set (bindings s') \<subseteq> insert SQL_NULL (set argv)"
proof -
  from bind_args_facts [OF assms]
  have "set (bindings s') \<subseteq> set (replicate (length (parameters s)) SQL_NULL) \<union> set argv"
    by (simp add: reset_clear_facts)
  then show ?thesis by auto
qed

lemma filter_failed:
  assumes f: "statement_vtab_filter cur idxNum idx_str argv = Some (rc, c)" and rc: "rc \<noteq> SQLITE_OK"
  shows "rowid c = 1 \<and> pVtab c = pVtab cur
       \<and> param_argc c = param_argc cur \<and> param_argv c = param_argv cur
       \<and> exec (stmt c) = None \<and> row (stmt c) = None
       \<and> program (stmt c) = program (stmt cur)
       \<and> map fst (parameters (stmt c)) = map fst (parameters (stmt cur))
       \<and> set (bindings (stmt c)) \<subseteq> insert SQL_NULL (set argv)
       \<and> (bind_args idx_str argv 0 (sqlite3_clear_bindings (sqlite3_reset (stmt cur))) = Some (rc, stmt c)
          \<or> (\<exists>s. bind_args idx_str argv 0 (sqlite3_clear_bindings (sqlite3_reset (stmt cur))) = Some (SQLITE_OK, s)
                \<and> sqlite3_step s = (rc, stmt c) \<and> rc \<noteq> SQLITE_ROW \<and> rc \<noteq> SQLITE_DONE))"
  using f
proof (cases rule: filter_cases)
  case (bind_failed s)
  from bind_args_facts [OF bind_failed(1)] bindings_subset [OF bind_failed(1)] bind_failed
  show ?thesis by (simp add: reset_clear_facts)
next
  case (step_failed s s')
  from bind_args_facts [OF step_failed(1)] bindings_subset [OF step_failed(1)]
    step_facts [OF step_failed(2)] step_failed
  show ?thesis by (auto simp add: reset_clear_facts)
next
  case (stepped s ret s')
  with rc show ?thesis by simp
qed

section \<open>The cursor's contracts\<close>

text \<open>
  C6. For a cursor that retains the arguments of its most recent \<open>xFilter\<close>, and every
  column index \<open>i\<close>: below \<open>num_outputs\<close> the column is the statement's current
  result value at position \<open>i\<close>, the value itself with its type (the entry \<open>i\<close> of the
  current row); from \<open>num_outputs\<close> on, if \<open>i - num_outputs\<close> is less than the number
  of retained arguments, it is the retained argument at that position, unchanged;
  otherwise no result is set. A cursor that \<open>xFilter\<close> leaves on a row retains the
  arguments of that call, and \<open>xNext\<close> keeps them.
\<close>

theorem column_contract:
  assumes "0 \<le>s num_outputs (pVtab cur)" and "retains cur argv"
  shows "statement_vtab_column cur i =
           Some (SQLITE_OK,
                 if i <s num_outputs (pVtab cur) then Some (sqlite3_column_value (stmt cur) i)
                 else if nat (sint i - sint (num_outputs (pVtab cur))) < length argv
                 then Some (argv ! nat (sint i - sint (num_outputs (pVtab cur))))
                 else None)
       \<and> (\<forall>r. row (stmt cur) = Some r \<and> 0 \<le>s i \<and> nat (sint i) < length r \<longrightarrow>
              sqlite3_column_value (stmt cur) i = r ! nat (sint i))
       \<and> retains (snd (statement_vtab_next cur)) argv
       \<and> (\<forall>c0 idxNum idx_str rc c.
              statement_vtab_filter c0 idxNum idx_str argv = Some (rc, c) \<and> row (stmt c) \<noteq> None \<longrightarrow>
                rc = SQLITE_OK \<and> retains c argv)"
proof -
  have len: "length argv < 2147483648" using assms(2) by (simp add: retains_def)
  have "rc = SQLITE_OK \<and> retains c argv"
    if "statement_vtab_filter c0 idxNum idx_str argv = Some (rc, c) \<and> row (stmt c) \<noteq> None"
    for c0 idxNum idx_str rc c
    using that len filter_on_row [of c0 idxNum idx_str argv rc c] by blast
  moreover have "sqlite3_column_value (stmt cur) i = r ! nat (sint i)"
    if "row (stmt cur) = Some r \<and> 0 \<le>s i \<and> nat (sint i) < length r" for r
    using that by (simp add: column_value_row)
  ultimately show ?thesis
    using column_retained [OF assms] next_retains [OF assms(2)] by blast
qed

theorem column_contract_witness:
  "statement_vtab_filter union_cursor 0 None [SQL_INTEGER 5, SQL_TEXT ''foo''] = Some (SQLITE_OK, echo_cursor)
   \<and> row (stmt echo_cursor) = Some [SQL_INTEGER 5]
   \<and> retains echo_cursor [SQL_INTEGER 5, SQL_TEXT ''foo'']
   \<and> statement_vtab_column echo_cursor 0 = Some (SQLITE_OK, Some (SQL_INTEGER 5))
   \<and> statement_vtab_column echo_cursor 1 = Some (SQLITE_OK, Some (SQL_INTEGER 5))
   \<and> statement_vtab_column echo_cursor 2 = Some (SQLITE_OK, Some (SQL_TEXT ''foo''))
   \<and> statement_vtab_column echo_cursor 3 = Some (SQLITE_OK, None)"
proof -
  let ?a = "[SQL_INTEGER 5, SQL_TEXT ''foo'']"
  have f: "statement_vtab_filter union_cursor 0 None ?a = Some (SQLITE_OK, echo_cursor)"
    by (simp add: statement_vtab_filter_def union_cursor_def union_stmt_def union_vtab_def echo_cursor_def
      sqlite3_reset_def sqlite3_clear_bindings_def param_idx_of_def sqlite3_bind_value_def
      sqlite3_stmt_busy_def sqlite3_step_def bindings_def word_sle_eq)
  have r: "row (stmt echo_cursor) = Some [SQL_INTEGER 5]" by (simp add: echo_cursor_def)
  have n: "0 \<le>s num_outputs (pVtab echo_cursor)" "num_outputs (pVtab echo_cursor) = 1"
    by (simp_all add: echo_cursor_def union_vtab_def word_sle_eq)
  have k: "retains echo_cursor ?a" by (simp add: retains_def echo_cursor_def)
  note T = column_contract [OF n(1) k, unfolded n(2)]
  have c0: "statement_vtab_column echo_cursor 0 = Some (SQLITE_OK, Some (SQL_INTEGER 5))"
    using T [of 0, THEN conjunct1] T [of 0, THEN conjunct2, THEN conjunct1, THEN spec, of "[SQL_INTEGER 5]"] r
    by (simp add: word_sless_alt word_sle_eq)
  have c1: "statement_vtab_column echo_cursor 1 = Some (SQLITE_OK, Some (SQL_INTEGER 5))"
    using T [of 1, THEN conjunct1] by (simp add: word_sless_alt)
  have c2: "statement_vtab_column echo_cursor 2 = Some (SQLITE_OK, Some (SQL_TEXT ''foo''))"
    using T [of 2, THEN conjunct1] by (simp add: word_sless_alt)
  have c3: "statement_vtab_column echo_cursor 3 = Some (SQLITE_OK, None)"
    using T [of 3, THEN conjunct1] by (simp add: word_sless_alt)
  from f r k c0 c1 c2 c3 show ?thesis by blast
qed



text \<open>
  C10. When \<open>statement_vtab_filter\<close> returns an error code, a binding returned it or
  the step returned it, being neither \<open>SQLITE_ROW\<close> nor \<open>SQLITE_DONE\<close>; and
  conversely each of the two makes the function return that code. The cursor it leaves
  has \<open>rowid = 1\<close> and a statement that is not running, on no row, whose parameters
  hold only NULL or arguments of this call; \<open>param_argc\<close> and \<open>param_argv\<close> are those
  of the cursor before the call.
\<close>

theorem filter_error_path:
  "(\<forall>rc c. statement_vtab_filter cur idxNum idx_str argv = Some (rc, c) \<and> rc \<noteq> SQLITE_OK \<longrightarrow>
       rowid c = 1 \<and> pVtab c = pVtab cur
     \<and> param_argc c = param_argc cur \<and> param_argv c = param_argv cur
     \<and> exec (stmt c) = None \<and> row (stmt c) = None
     \<and> program (stmt c) = program (stmt cur)
     \<and> map fst (parameters (stmt c)) = map fst (parameters (stmt cur))
     \<and> set (bindings (stmt c)) \<subseteq> insert SQL_NULL (set argv)
     \<and> (bind_args idx_str argv 0 (sqlite3_clear_bindings (sqlite3_reset (stmt cur))) = Some (rc, stmt c)
        \<or> (\<exists>s. bind_args idx_str argv 0 (sqlite3_clear_bindings (sqlite3_reset (stmt cur))) = Some (SQLITE_OK, s)
              \<and> sqlite3_step s = (rc, stmt c) \<and> rc \<noteq> SQLITE_ROW \<and> rc \<noteq> SQLITE_DONE)))
   \<and> (\<forall>rc s. bind_args idx_str argv 0 (sqlite3_clear_bindings (sqlite3_reset (stmt cur))) = Some (rc, s)
         \<and> rc \<noteq> SQLITE_OK \<longrightarrow>
       statement_vtab_filter cur idxNum idx_str argv = Some (rc, cur\<lparr>rowid := 1, stmt := s\<rparr>))
   \<and> (\<forall>rc s s'. bind_args idx_str argv 0 (sqlite3_clear_bindings (sqlite3_reset (stmt cur))) = Some (SQLITE_OK, s)
         \<and> sqlite3_step s = (rc, s') \<and> rc \<noteq> SQLITE_ROW \<and> rc \<noteq> SQLITE_DONE \<longrightarrow>
       statement_vtab_filter cur idxNum idx_str argv = Some (rc, cur\<lparr>rowid := 1, stmt := s'\<rparr>))"
proof -
  have A: "rowid c = 1 \<and> pVtab c = pVtab cur
     \<and> param_argc c = param_argc cur \<and> param_argv c = param_argv cur
     \<and> exec (stmt c) = None \<and> row (stmt c) = None
     \<and> program (stmt c) = program (stmt cur)
     \<and> map fst (parameters (stmt c)) = map fst (parameters (stmt cur))
     \<and> set (bindings (stmt c)) \<subseteq> insert SQL_NULL (set argv)
     \<and> (bind_args idx_str argv 0 (sqlite3_clear_bindings (sqlite3_reset (stmt cur))) = Some (rc, stmt c)
        \<or> (\<exists>s. bind_args idx_str argv 0 (sqlite3_clear_bindings (sqlite3_reset (stmt cur))) = Some (SQLITE_OK, s)
              \<and> sqlite3_step s = (rc, stmt c) \<and> rc \<noteq> SQLITE_ROW \<and> rc \<noteq> SQLITE_DONE))"
    if "statement_vtab_filter cur idxNum idx_str argv = Some (rc, c) \<and> rc \<noteq> SQLITE_OK" for rc c
    using that filter_failed [of cur idxNum idx_str argv rc c] by blast
  have B: "statement_vtab_filter cur idxNum idx_str argv = Some (rc, cur\<lparr>rowid := 1, stmt := s\<rparr>)"
    if "bind_args idx_str argv 0 (sqlite3_clear_bindings (sqlite3_reset (stmt cur))) = Some (rc, s)
         \<and> rc \<noteq> SQLITE_OK" for rc s
    using that by (simp add: statement_vtab_filter_def Let_def)
  have C: "statement_vtab_filter cur idxNum idx_str argv = Some (rc, cur\<lparr>rowid := 1, stmt := s'\<rparr>)"
    if "bind_args idx_str argv 0 (sqlite3_clear_bindings (sqlite3_reset (stmt cur))) = Some (SQLITE_OK, s)
         \<and> sqlite3_step s = (rc, s') \<and> rc \<noteq> SQLITE_ROW \<and> rc \<noteq> SQLITE_DONE" for rc s s'
    using that by (simp add: statement_vtab_filter_def Let_def)
  from A B C show ?thesis by blast
qed

theorem filter_error_path_witness:
  "statement_vtab_filter abs_cursor 0 None [SQL_INTEGER 0x8000000000000000]
     = Some (SQLITE_ERROR,
             abs_cursor\<lparr>stmt := abs_stmt\<lparr>parameters := [(Some '':x'', SQL_INTEGER 0x8000000000000000)]\<rparr>\<rparr>)
   \<and> rowid (abs_cursor\<lparr>stmt := abs_stmt\<lparr>parameters := [(Some '':x'', SQL_INTEGER 0x8000000000000000)]\<rparr>\<rparr>) = 1
   \<and> param_argc (abs_cursor\<lparr>stmt := abs_stmt\<lparr>parameters := [(Some '':x'', SQL_INTEGER 0x8000000000000000)]\<rparr>\<rparr>) = 1
   \<and> param_argv (abs_cursor\<lparr>stmt := abs_stmt\<lparr>parameters := [(Some '':x'', SQL_INTEGER 0x8000000000000000)]\<rparr>\<rparr>)
       = [SQL_INTEGER 5]
   \<and> bindings (stmt abs_cursor) = [SQL_INTEGER 5]
   \<and> statement_vtab_filter (snd (statement_vtab_next echo_cursor)) 0 None
        [SQL_INTEGER 1, SQL_INTEGER 2, SQL_INTEGER 3, SQL_INTEGER 4]
     = Some (SQLITE_RANGE,
             echo_cursor\<lparr>rowid := 1,
               stmt := union_stmt\<lparr>parameters := [(Some '':x'', SQL_INTEGER 1), (Some '':y'', SQL_INTEGER 2),
                          (Some '':z'', SQL_INTEGER 3)]\<rparr>\<rparr>)
   \<and> rowid (snd (statement_vtab_next echo_cursor)) = 2
   \<and> param_argc (echo_cursor\<lparr>rowid := 1,
               stmt := union_stmt\<lparr>parameters := [(Some '':x'', SQL_INTEGER 1), (Some '':y'', SQL_INTEGER 2),
                          (Some '':z'', SQL_INTEGER 3)]\<rparr>\<rparr>) = 2
   \<and> param_argv (echo_cursor\<lparr>rowid := 1,
               stmt := union_stmt\<lparr>parameters := [(Some '':x'', SQL_INTEGER 1), (Some '':y'', SQL_INTEGER 2),
                          (Some '':z'', SQL_INTEGER 3)]\<rparr>\<rparr>)
       = [SQL_INTEGER 5, SQL_TEXT ''foo'', SQL_NULL]"
proof -
  let ?m = "SQL_INTEGER 0x8000000000000000"
  let ?s0 = "sqlite3_clear_bindings (sqlite3_reset (stmt abs_cursor))"
  let ?s1 = "abs_stmt\<lparr>parameters := [(Some '':x'', ?m)]\<rparr>"
  have b: "bind_args None [?m] 0 ?s0 = Some (SQLITE_OK, ?s1)"
    by (simp add: abs_cursor_def abs_stmt_def sqlite3_reset_def sqlite3_clear_bindings_def
        param_idx_of_def sqlite3_bind_value_def sqlite3_stmt_busy_def word_sle_eq)
  have st: "sqlite3_step ?s1 = (SQLITE_ERROR, ?s1)"
    by (simp add: sqlite3_step_def abs_stmt_def bindings_def)
  note T = filter_error_path [of abs_cursor 0 None "[?m]"]
  from T [THEN conjunct2, THEN conjunct2, rule_format, of ?s1 SQLITE_ERROR ?s1] b st
  have f: "statement_vtab_filter abs_cursor 0 None [?m] = Some (SQLITE_ERROR, abs_cursor\<lparr>rowid := 1, stmt := ?s1\<rparr>)"
    by simp
  have e: "abs_cursor\<lparr>rowid := 1, stmt := ?s1\<rparr> = abs_cursor\<lparr>stmt := ?s1\<rparr>"
    by (simp add: abs_cursor_def)
  from T [THEN conjunct1, rule_format, of SQLITE_ERROR "abs_cursor\<lparr>stmt := ?s1\<rparr>"] f e
  have k: "rowid (abs_cursor\<lparr>stmt := ?s1\<rparr>) = 1"
    "param_argc (abs_cursor\<lparr>stmt := ?s1\<rparr>) = param_argc abs_cursor"
    "param_argv (abs_cursor\<lparr>stmt := ?s1\<rparr>) = param_argv abs_cursor"
    by simp_all
  have p: "param_argc abs_cursor = 1" "param_argv abs_cursor = [SQL_INTEGER 5]"
    "bindings (stmt abs_cursor) = [SQL_INTEGER 5]"
    by (simp_all add: abs_cursor_def bindings_def)
  let ?e = "snd (statement_vtab_next echo_cursor)"
  let ?a = "[SQL_INTEGER 1, SQL_INTEGER 2, SQL_INTEGER 3, SQL_INTEGER 4]"
  let ?s2 = "union_stmt\<lparr>parameters := [(Some '':x'', SQL_INTEGER 1), (Some '':y'', SQL_INTEGER 2),
                          (Some '':z'', SQL_INTEGER 3)]\<rparr>"
  have n: "?e = echo_cursor\<lparr>rowid := 2,
      stmt := (stmt echo_cursor)\<lparr>exec := Some ([[SQL_NULL]], SQLITE_DONE), row := Some [SQL_TEXT ''foo'']\<rparr>\<rparr>"
    by (simp add: statement_vtab_next_def sqlite3_step_def echo_cursor_def)
  have b2: "bind_args None ?a 0 (sqlite3_clear_bindings (sqlite3_reset (stmt ?e))) = Some (SQLITE_RANGE, ?s2)"
    unfolding n
    by (simp add: echo_cursor_def union_stmt_def sqlite3_reset_def sqlite3_clear_bindings_def
        param_idx_of_def sqlite3_bind_value_def sqlite3_stmt_busy_def word_sle_eq)
  note U = filter_error_path [of ?e 0 None ?a]
  from U [THEN conjunct2, THEN conjunct1, rule_format, of SQLITE_RANGE ?s2] b2
  have f2: "statement_vtab_filter ?e 0 None ?a = Some (SQLITE_RANGE, ?e\<lparr>rowid := 1, stmt := ?s2\<rparr>)"
    by simp
  have e2: "?e\<lparr>rowid := 1, stmt := ?s2\<rparr> = echo_cursor\<lparr>rowid := 1, stmt := ?s2\<rparr>"
    unfolding n by simp
  have r2: "rowid ?e = 2" unfolding n by simp
  from U [THEN conjunct1, rule_format, of SQLITE_RANGE "echo_cursor\<lparr>rowid := 1, stmt := ?s2\<rparr>"] f2 e2
  have k2: "param_argc (echo_cursor\<lparr>rowid := 1, stmt := ?s2\<rparr>) = param_argc ?e"
    "param_argv (echo_cursor\<lparr>rowid := 1, stmt := ?s2\<rparr>) = param_argv ?e"
    by simp_all
  have p2: "param_argc ?e = 2" "param_argv ?e = [SQL_INTEGER 5, SQL_TEXT ''foo'', SQL_NULL]"
    unfolding n by (simp_all add: echo_cursor_def)
  from f e k p f2 e2 r2 k2 p2 show ?thesis by simp
qed

section \<open>The schema text\<close>

lemma column_nat:
  assumes "i < length (columns s)" "length (columns s) < 2147483648"
  shows "sqlite3_column_name s (of_nat i) = fst (columns s ! i)"
    and "sqlite3_column_decltype s (of_nat i) = snd (columns s ! i)"
proof -
  have "i < 2147483648" using assms by simp
  then have s: "sint (of_nat i :: c_int) = int i" by (rule sint_of_nat32)
  show "sqlite3_column_name s (of_nat i) = fst (columns s ! i)"
    and "sqlite3_column_decltype s (of_nat i) = snd (columns s ! i)"
    using assms(1) by (simp_all add: sqlite3_column_name_def sqlite3_column_decltype_def word_sle_eq s)
qed

lemma parameter_nat:
  assumes "i < length (parameters s)" "length (parameters s) < 2147483648"
  shows "sqlite3_bind_parameter_name s (of_nat i + 1) = fst (parameters s ! i)"
    and "format_d (of_nat i + 1) = decimal (i + 1)"
proof -
  have "i + 1 < 2147483648" using assms by simp
  then have "sint (of_nat (i + 1) :: c_int) = int (i + 1)" by (rule sint_of_nat32)
  then have s: "sint (of_nat i + 1 :: c_int) = int i + 1" by (simp add: ac_simps)
  show "sqlite3_bind_parameter_name s (of_nat i + 1) = fst (parameters s ! i)"
    using assms(1) by (simp add: sqlite3_bind_parameter_name_def word_sle_eq s nat_add_distrib)
  show "format_d (of_nat i + 1) = decimal (i + 1)"
    by (simp add: format_d_def word_sle_eq s nat_add_distrib)
qed

lemma digit_not_quote: "d < 10 \<Longrightarrow> digit d \<noteq> quote_char"
proof -
  assume "d < 10"
  then have "d \<in> {0, 1, 2, 3, 4, 5, 6, 7, 8, 9}" by auto
  then show ?thesis by (auto simp add: digit_def quote_char_def)
qed

lemma decimal_no_quote: "quote_char \<notin> set (decimal n)"
proof (induction n rule: decimal.induct)
  case (1 n)
  show ?case
  proof (cases "n < 10")
    case True
    then show ?thesis using digit_not_quote [of n] by (subst decimal.simps) auto
  next
    case False
    have "n mod 10 < 10" by simp
    then have "digit (n mod 10) \<noteq> quote_char" by (rule digit_not_quote)
    with False 1 show ?thesis by (subst decimal.simps) auto
  qed
qed

lemma fmt_Q_plain: "quote_char \<notin> set s \<Longrightarrow> fmt_Q s = quote_char # s @ [quote_char]"
proof -
  assume a: "quote_char \<notin> set s"
  have "concat (map (\<lambda>c. if c = quote_char then [c, c] else [c]) s) = s"
    using a by (induction s) auto
  then show ?thesis by (simp add: fmt_Q_def)
qed

lemma fold_column_step:
  assumes "length (columns s) < 2147483648"
  shows "n \<le> length (columns s) \<Longrightarrow>
    fold (column_step s) [0..<n] (Some acc) =
      (if list_all (\<lambda>c. fst c \<noteq> None) (take n (columns s))
       then Some (acc @ concat (map (\<lambda>d. render_column d @ '','')
               (map (\<lambda>c. Output (case fst c of None \<Rightarrow> [] | Some name \<Rightarrow> name)
                                (case snd c of None \<Rightarrow> [] | Some decltype \<Rightarrow> decltype))
                    (take n (columns s)))))
       else None)"
proof (induction n)
  case 0
  then show ?case by simp
next
  case (Suc n)
  then have n: "n < length (columns s)" by simp
  note c = column_nat [OF n assms]
  have t: "take (Suc n) (columns s) = take n (columns s) @ [columns s ! n]"
    using n by (rule take_Suc_conv_app_nth)
  have IH: "fold (column_step s) [0..<n] (Some acc) =
      (if list_all (\<lambda>c. fst c \<noteq> None) (take n (columns s))
       then Some (acc @ concat (map (\<lambda>d. render_column d @ '','')
               (map (\<lambda>c. Output (case fst c of None \<Rightarrow> [] | Some name \<Rightarrow> name)
                                (case snd c of None \<Rightarrow> [] | Some decltype \<Rightarrow> decltype))
                    (take n (columns s)))))
       else None)"
    using Suc.IH n by simp
  have "fold (column_step s) [0..<Suc n] (Some acc) = column_step s n (fold (column_step s) [0..<n] (Some acc))"
    by simp
  also have "\<dots> = (if list_all (\<lambda>c. fst c \<noteq> None) (take (Suc n) (columns s))
       then Some (acc @ concat (map (\<lambda>d. render_column d @ '','')
               (map (\<lambda>c. Output (case fst c of None \<Rightarrow> [] | Some name \<Rightarrow> name)
                                (case snd c of None \<Rightarrow> [] | Some decltype \<Rightarrow> decltype))
                    (take (Suc n) (columns s)))))
       else None)"
    unfolding IH t
    by (cases "fst (columns s ! n)") (simp_all add: column_step_def c)
  finally show ?case .
qed

lemma fold_param_step:
  assumes "length (parameters s) < 2147483648"
  shows "n \<le> length (parameters s) \<Longrightarrow>
    fold (param_step s) [0..<n] acc =
      acc @ concat (map (\<lambda>d. render_column d @ '','')
               (map (\<lambda>i. Hidden (case fst (parameters s ! i) of
                           Some name \<Rightarrow> tl name
                         | None \<Rightarrow> decimal (i + 1))) [0..<n]))"
proof (induction n)
  case 0
  then show ?case by simp
next
  case (Suc n)
  then have n: "n < length (parameters s)" by simp
  note p = parameter_nat [OF n assms]
  have q: "[quote_char] @ decimal (n + 1) @ [quote_char] = fmt_Q (decimal (n + 1))"
    using decimal_no_quote [of "n + 1"] by (simp add: fmt_Q_plain)
  have IH: "fold (param_step s) [0..<n] acc =
      acc @ concat (map (\<lambda>d. render_column d @ '','')
               (map (\<lambda>i. Hidden (case fst (parameters s ! i) of
                           Some name \<Rightarrow> tl name
                         | None \<Rightarrow> decimal (i + 1))) [0..<n]))"
    using Suc.IH n by simp
  have step: "param_step s n x = x @ render_column (Hidden (case fst (parameters s ! n) of
                           Some name \<Rightarrow> tl name
                         | None \<Rightarrow> decimal (n + 1))) @ '',''" for x
  proof (cases "fst (parameters s ! n)")
    case None
    have "param_step s n x = x @ ([quote_char] @ decimal (n + 1) @ [quote_char]) @ '' hidden,''"
      by (simp add: param_step_def p None)
    then show ?thesis unfolding q by (simp add: None)
  next
    case (Some name)
    then show ?thesis by (simp add: param_step_def p)
  qed
  show ?case by (simp add: IH step)
qed

lemma replace_last: "xs \<noteq> [] \<Longrightarrow> xs[length xs - 1 := c] = butlast xs @ [c]"
  by (induction xs rule: rev_induct) (simp_all add: list_update_append)

lemma build_create_statement_eq:
  assumes c: "length (columns s) < 2147483648" and p: "length (parameters s) < 2147483648"
  shows "build_create_statement str_ok s =
           (if str_ok \<and> list_all (\<lambda>c. fst c \<noteq> None) (columns s)
            then Some (render_schema (schema_of s)) else None)"
proof -
  have nc: "nat (sint (sqlite3_column_count s)) = length (columns s)"
    using c by (simp add: sqlite3_column_count_def sint_of_nat32)
  have np: "nat (sint (sqlite3_bind_parameter_count s)) = length (parameters s)"
    using p by (simp add: sqlite3_bind_parameter_count_def sint_of_nat32)
  let ?C = "concat (map (\<lambda>d. render_column d @ '','')
               (map (\<lambda>c. Output (case fst c of None \<Rightarrow> [] | Some name \<Rightarrow> name)
                                (case snd c of None \<Rightarrow> [] | Some decltype \<Rightarrow> decltype))
                    (columns s)))"
  let ?P = "concat (map (\<lambda>d. render_column d @ '','')
               (map (\<lambda>i. Hidden (case fst (parameters s ! i) of
                           Some name \<Rightarrow> tl name
                         | None \<Rightarrow> decimal (i + 1))) [0..<length (parameters s)]))"
  have f1: "fold (column_step s) [0..<length (columns s)] (Some ''CREATE TABLE x( '') =
      (if list_all (\<lambda>c. fst c \<noteq> None) (columns s) then Some (''CREATE TABLE x( '' @ ?C) else None)"
    using fold_column_step [OF c, of "length (columns s)" "''CREATE TABLE x( ''"] by simp
  have f2: "fold (param_step s) [0..<length (parameters s)] x = x @ ?P" for x
    using fold_param_step [OF p, of "length (parameters s)" x] by simp
  have r: "render_schema (schema_of s) = ''CREATE TABLE x('' @ butlast ('' '' @ ?C @ ?P) @ '')''"
    by (simp add: render_schema_def schema_of_def)
  have e: "(''CREATE TABLE x( '' @ ?C @ ?P)[length (''CREATE TABLE x( '' @ ?C @ ?P) - 1 := CHR '')'']
      = ''CREATE TABLE x('' @ butlast ('' '' @ ?C @ ?P) @ '')''"
  proof -
    have "(''CREATE TABLE x( '' @ ?C @ ?P)[length (''CREATE TABLE x( '' @ ?C @ ?P) - 1 := CHR '')'']
        = butlast (''CREATE TABLE x( '' @ ?C @ ?P) @ '')''"
      by (rule replace_last) simp
    also have "''CREATE TABLE x( '' @ ?C @ ?P = ''CREATE TABLE x('' @ ('' '' @ ?C @ ?P)" by simp
    also have "butlast (''CREATE TABLE x('' @ ('' '' @ ?C @ ?P)) = ''CREATE TABLE x('' @ butlast ('' '' @ ?C @ ?P)"
      by (rule butlast_append [THEN trans]) simp
    finally show ?thesis by simp
  qed
  show ?thesis
  proof (cases "list_all (\<lambda>c. fst c \<noteq> None) (columns s)")
    case False
    then show ?thesis by (simp add: build_create_statement_def nc f1)
  next
    case True
    have "build_create_statement str_ok s =
        (if str_ok then Some ((''CREATE TABLE x( '' @ ?C @ ?P)[length (''CREATE TABLE x( '' @ ?C @ ?P) - 1 := CHR '')''])
         else None)"
      unfolding build_create_statement_def nc np f1 Let_def using True by (simp add: f2)
    then show ?thesis unfolding e r using True by simp
  qed
qed

text \<open>
  C7. For every statement, with the numbers of its columns and of its parameters within
  \<open>int\<close>: \<open>build_create_statement\<close> returns the text that declares the columns
  \<open>schema_of\<close>, unless a result column has no name or the string cannot be allocated,
  when it returns NULL. These are the result columns first, in the order of the
  statement, each with its name and its declared type, empty when absent; then one
  hidden column for each parameter, in the order of the parameters, named by the
  parameter's name without its first character, or by its position counted from 1 in
  decimal when it has no name.
\<close>

theorem declared_schema:
  assumes "length (columns st) < 2147483648" and "length (parameters st) < 2147483648"
  shows "build_create_statement str_ok st =
           (if str_ok \<and> list_all (\<lambda>c. fst c \<noteq> None) (columns st)
            then Some (render_schema (schema_of st)) else None)
       \<and> length (schema_of st) = length (columns st) + length (parameters st)
       \<and> (\<forall>i < length (columns st).
            schema_of st ! i =
              Output (case fst (columns st ! i) of None \<Rightarrow> [] | Some name \<Rightarrow> name)
                     (case snd (columns st ! i) of None \<Rightarrow> [] | Some decltype \<Rightarrow> decltype))
       \<and> (\<forall>j < length (parameters st).
            schema_of st ! (length (columns st) + j) =
              Hidden (case fst (parameters st ! j) of
                        Some name \<Rightarrow> tl name
                      | None \<Rightarrow> decimal (j + 1)))"
proof -
  have "schema_of st ! i =
      Output (case fst (columns st ! i) of None \<Rightarrow> [] | Some name \<Rightarrow> name)
             (case snd (columns st ! i) of None \<Rightarrow> [] | Some decltype \<Rightarrow> decltype)"
    if "i < length (columns st)" for i
    using that by (simp add: schema_of_def nth_append)
  moreover have "schema_of st ! (length (columns st) + j) =
      Hidden (case fst (parameters st ! j) of Some name \<Rightarrow> tl name | None \<Rightarrow> decimal (j + 1))"
    if "j < length (parameters st)" for j
    using that by (simp add: schema_of_def nth_append cong: option.case_cong)
  moreover have "length (schema_of st) = length (columns st) + length (parameters st)"
    by (simp add: schema_of_def)
  ultimately show ?thesis
    using build_create_statement_eq [OF assms, of str_ok] by blast
qed

theorem declared_schema_witness:
  "schema_of ab_stmt = [Output ''a'' ''INT'', Output ''b'' [], Hidden ''x'', Hidden ''y'']
   \<and> build_create_statement True ab_stmt = Some ''CREATE TABLE x( 'a' INT,'b' ,'x' hidden,'y' hidden)''
   \<and> schema_of anon_stmt = [Output ''?'' [], Hidden ''1'']
   \<and> build_create_statement True anon_stmt = Some ''CREATE TABLE x( '?' ,'1' hidden)''"
proof -
  have u: "[0..<2] = [0, 1]" by (simp add: upt_rec)
  have s1: "schema_of ab_stmt = [Output ''a'' ''INT'', Output ''b'' [], Hidden ''x'', Hidden ''y'']"
    by (simp add: schema_of_def ab_stmt_def u)
  have s2: "schema_of anon_stmt = [Output ''?'' [], Hidden ''1'']"
    by (simp add: schema_of_def anon_stmt_def digit_def)
  have l1: "length (columns ab_stmt) < 2147483648" "length (parameters ab_stmt) < 2147483648"
    "list_all (\<lambda>c. fst c \<noteq> None) (columns ab_stmt)"
    by (simp_all add: ab_stmt_def)
  have l2: "length (columns anon_stmt) < 2147483648" "length (parameters anon_stmt) < 2147483648"
    "list_all (\<lambda>c. fst c \<noteq> None) (columns anon_stmt)"
    by (simp_all add: anon_stmt_def)
  have b1: "build_create_statement True ab_stmt = Some ''CREATE TABLE x( 'a' INT,'b' ,'x' hidden,'y' hidden)''"
    using declared_schema [OF l1(1,2), of True, THEN conjunct1] l1(3)
    by (simp add: s1 render_schema_def fmt_Q_def quote_char_def)
  have b2: "build_create_statement True anon_stmt = Some ''CREATE TABLE x( '?' ,'1' hidden)''"
    using declared_schema [OF l2(1,2), of True, THEN conjunct1] l2(3)
    by (simp add: s2 render_schema_def fmt_Q_def quote_char_def)
  from s1 b1 s2 b2 show ?thesis by simp
qed

section \<open>The outcome of creating a table\<close>

lemma release_all: "removeAll Vtab (removeAll Sql (removeAll Stmt (removeAll Create lv))) = []"
proof (induction lv)
  case Nil
  then show ?case by simp
next
  case (Cons a lv)
  then show ?case by (cases a) simp_all
qed

lemma error_exit_facts:
  "retval (error_exit r msg lv) = r" "ppVtab (error_exit r msg lv) = None"
  "pzErr (error_exit r msg lv) = msg" "live (error_exit r msg lv) = []"
  by (simp_all add: error_exit_def release_all)

lemma sqlite_error_exit_facts:
  "ppVtab (sqlite_error_exit al r msg lv) = None"
  "live (sqlite_error_exit al r msg lv) = []"
  by (simp_all add: sqlite_error_exit_def error_exit_facts)

lemma create_ignores_extra:
  "statement_vtab_create db al argv = statement_vtab_create db al (take 4 argv)"
proof (cases "length argv < 4")
  case True
  then show ?thesis by simp
next
  case False
  then have "take 4 argv ! 3 = argv ! 3" "length (take 4 argv) = 4" by simp_all
  with False show ?thesis by (simp add: statement_vtab_create_def)
qed

lemma create_failed:
  assumes "retval (statement_vtab_create db al argv) \<noteq> SQLITE_OK"
  shows "ppVtab (statement_vtab_create db al argv) = None \<and> live (statement_vtab_create db al argv) = []"
  using assms
  by (auto simp add: statement_vtab_create_def Let_def error_exit_facts sqlite_error_exit_facts
      simp del: append.simps removeAll.simps
      split: if_splits prod.splits option.splits)

lemma parenthesized:
  assumes "argv ! 3 = ''('' @ zSql @ '')''" and "zSql \<noteq> []"
  shows "\<not> length (argv ! 3) < 3" "argv ! 3 ! 0 = CHR ''(''"
    "argv ! 3 ! (length (argv ! 3) - 1) = CHR '')''"
    "take (length (argv ! 3) - 2) (drop 1 (argv ! 3)) = zSql"
proof -
  have "0 < length zSql" using assms(2) by simp
  then show "\<not> length (argv ! 3) < 3" unfolding assms(1) by simp
  show "argv ! 3 ! 0 = CHR ''(''" unfolding assms(1) by simp
  show "argv ! 3 ! (length (argv ! 3) - 1) = CHR '')''" unfolding assms(1) by (simp add: nth_append)
  show "take (length (argv ! 3) - 2) (drop 1 (argv ! 3)) = zSql" unfolding assms(1) by simp
qed

lemma create_not_readonly:
  assumes "4 \<le> length argv" "argv ! 3 = ''('' @ zSql @ '')''" "zSql \<noteq> []"
    "vtab_alloc al" "sql_alloc al" "prepare_v2 db zSql = (SQLITE_OK, Some s, msg)" "\<not> readonly s"
  shows "statement_vtab_create db al argv =
     (if err_alloc al
      then \<lparr>retval = SQLITE_ERROR, ppVtab = None, pzErr = Some ''Statement must be read only.'', live = []\<rparr>
      else \<lparr>retval = SQLITE_NOMEM, ppVtab = None, pzErr = None, live = []\<rparr>)"
proof -
  note p = parenthesized [OF assms(2,3)]
  have e: "error_exit r m [Vtab, Sql, Stmt] = \<lparr>retval = r, ppVtab = None, pzErr = m, live = []\<rparr>" for r m
    by (simp add: error_exit_def)
  show ?thesis
    unfolding statement_vtab_create_def p(4)
    using assms(1,4,5,6,7) p(1,2,3)
    by (simp add: Let_def sqlite3_stmt_readonly_def e)
qed

lemma create_ok:
  assumes "retval (statement_vtab_create db al argv) = SQLITE_OK"
  shows "\<exists>zSql pStmt msg.
           4 \<le> length argv \<and> argv ! 3 = ''('' @ zSql @ '')'' \<and> zSql \<noteq> []
         \<and> prepare_v2 db zSql = (SQLITE_OK, pStmt, msg)
         \<and> readonly (case pStmt of None \<Rightarrow> null_stmt | Some s \<Rightarrow> s)
         \<and> statement_vtab_create db al argv =
             \<lparr>retval = SQLITE_OK,
              ppVtab = Some \<lparr>zErrMsg = None, sql = zSql,
                  num_inputs = sqlite3_bind_parameter_count (case pStmt of None \<Rightarrow> null_stmt | Some s \<Rightarrow> s),
                  num_outputs = sqlite3_column_count (case pStmt of None \<Rightarrow> null_stmt | Some s \<Rightarrow> s)\<rparr>,
              pzErr = None, live = [Vtab, Sql]\<rparr>"
proof -
  let ?a = "argv ! 3"
  let ?z = "take (length ?a - 2) (drop 1 ?a)"
  have n: "\<not> (length argv < 4 \<or> length ?a < 3)"
    "\<not> (?a ! 0 \<noteq> CHR ''('' \<or> ?a ! (length ?a - 1) \<noteq> CHR '')'')"
    using assms by (auto simp add: statement_vtab_create_def split: if_splits)
  have len: "3 \<le> length ?a" "4 \<le> length argv" using n(1) by simp_all
  have a: "?a = ''('' @ ?z @ '')''"
  proof (rule nth_equalityI)
    show "length ?a = length (''('' @ ?z @ '')'')" using len by simp
  next
    fix i assume i: "i < length ?a"
    consider "i = 0" | "0 < i \<and> i < length ?a - 1" | "i = length ?a - 1" using i by linarith
    then show "?a ! i = (''('' @ ?z @ '')'') ! i"
    proof cases
      case 1
      then show ?thesis using n(2) by simp
    next
      case 2
      then have k: "i - 1 < length ?a - 2" "Suc (i - 1) = i" by linarith+
      have "(''('' @ ?z @ '')'') ! i = (?z @ '')'') ! (i - 1)" using 2 by (simp add: nth_Cons')
      also have "\<dots> = ?z ! (i - 1)" using k(1) len by (simp add: nth_append)
      also have "\<dots> = drop 1 ?a ! (i - 1)" using k(1) by simp
      also have "\<dots> = ?a ! i" using k len 2 by simp
      finally show ?thesis by simp
    next
      case 3
      have lz: "length ?a - 2 = length ?z" using len by simp
      have "(''('' @ ?z @ '')'') ! i = (?z @ '')'') ! (length ?a - 2)"
        using 3 len by (simp add: nth_Cons' numeral_2_eq_2)
      also have "\<dots> = (?z @ '')'') ! length ?z" unfolding lz [symmetric] by (rule refl)
      also have "\<dots> = CHR '')''" by (simp del: length_take length_drop)
      finally show ?thesis using 3 n(2) by simp
    qed
  qed
  have z: "?z \<noteq> []" using len by auto
  obtain r pStmt msg where p: "prepare_v2 db ?z = (r, pStmt, msg)" by (cases "prepare_v2 db ?z")
  let ?st = "case pStmt of None \<Rightarrow> null_stmt | Some s \<Rightarrow> s"
  have lv: "removeAll Stmt (removeAll Create (([Vtab, Sql] @ (case pStmt of None \<Rightarrow> [] | Some s \<Rightarrow> [Stmt])) @ [Create]))
      = [Vtab, Sql]"
    by (cases pStmt) simp_all
  have ne: "retval (sqlite_error_exit al r' m lv') \<noteq> SQLITE_OK" if "r' \<noteq> SQLITE_OK" for r' m lv'
    using that by (simp add: sqlite_error_exit_def error_exit_facts)
  have r: "r = SQLITE_OK"
    using assms n p by (auto simp add: statement_vtab_create_def Let_def error_exit_facts ne
        split: if_splits)
  have ro: "readonly ?st"
    using assms n p r
    by (auto simp add: statement_vtab_create_def Let_def error_exit_facts sqlite3_stmt_readonly_def
        split: if_splits)
  have "statement_vtab_create db al argv =
             \<lparr>retval = SQLITE_OK,
              ppVtab = Some \<lparr>zErrMsg = None, sql = ?z,
                  num_inputs = sqlite3_bind_parameter_count ?st,
                  num_outputs = sqlite3_column_count ?st\<rparr>,
              pzErr = None, live = [Vtab, Sql]\<rparr>"
    using assms n p r ro lv
    by (auto simp add: statement_vtab_create_def Let_def error_exit_facts ne sqlite3_stmt_readonly_def
        simp del: append.simps removeAll.simps
        split: if_splits option.splits prod.splits)
  with len(2) a z p r ro show ?thesis by blast
qed

text \<open>
  C8. \<open>statement_vtab_create\<close> reads no argument after the first one of the module:
  the outcome is that of the call with the further arguments removed. Without that
  argument, or with one shorter than three characters, it returns \<open>SQLITE_MISUSE\<close>
  with the message \<open>no statement provided\<close>; with one that does not start with \<open>(\<close>
  and end with \<open>)\<close>, \<open>SQLITE_MISUSE\<close> with \<open>statement must be parenthesized\<close>; for
  a statement that compiles and is not read only, \<open>SQLITE_ERROR\<close> with
  \<open>Statement must be read only.\<close> (\<open>SQLITE_NOMEM\<close> in each case when the message
  cannot be allocated). Whenever the return value is not \<open>SQLITE_OK\<close>, \<open>*ppVtab\<close> is
  NULL and nothing the call allocated is live. When it is \<open>SQLITE_OK\<close>, the argument
  is a parenthesized text that compiles to a read-only statement, and the table holds
  that text and the two counts.
\<close>

theorem create_contract:
  "statement_vtab_create db al argv = statement_vtab_create db al (take 4 argv)
   \<and> (length argv < 4 \<or> length (argv ! 3) < 3 \<longrightarrow>
        statement_vtab_create db al argv =
          (if err_alloc al
           then \<lparr>retval = SQLITE_MISUSE, ppVtab = None, pzErr = Some ''no statement provided'', live = []\<rparr>
           else \<lparr>retval = SQLITE_NOMEM, ppVtab = None, pzErr = None, live = []\<rparr>))
   \<and> (4 \<le> length argv \<and> 3 \<le> length (argv ! 3)
        \<and> (hd (argv ! 3) \<noteq> CHR ''('' \<or> last (argv ! 3) \<noteq> CHR '')'') \<longrightarrow>
        statement_vtab_create db al argv =
          (if err_alloc al
           then \<lparr>retval = SQLITE_MISUSE, ppVtab = None, pzErr = Some ''statement must be parenthesized'',
                 live = []\<rparr>
           else \<lparr>retval = SQLITE_NOMEM, ppVtab = None, pzErr = None, live = []\<rparr>))
   \<and> (\<forall>zSql s msg.
        4 \<le> length argv \<and> argv ! 3 = ''('' @ zSql @ '')'' \<and> zSql \<noteq> []
        \<and> vtab_alloc al \<and> sql_alloc al
        \<and> prepare_v2 db zSql = (SQLITE_OK, Some s, msg) \<and> \<not> readonly s \<longrightarrow>
        statement_vtab_create db al argv =
          (if err_alloc al
           then \<lparr>retval = SQLITE_ERROR, ppVtab = None, pzErr = Some ''Statement must be read only.'',
                 live = []\<rparr>
           else \<lparr>retval = SQLITE_NOMEM, ppVtab = None, pzErr = None, live = []\<rparr>))
   \<and> (retval (statement_vtab_create db al argv) \<noteq> SQLITE_OK \<longrightarrow>
        ppVtab (statement_vtab_create db al argv) = None
        \<and> live (statement_vtab_create db al argv) = [])
   \<and> (retval (statement_vtab_create db al argv) = SQLITE_OK \<longrightarrow>
        (\<exists>zSql pStmt msg.
           4 \<le> length argv \<and> argv ! 3 = ''('' @ zSql @ '')'' \<and> zSql \<noteq> []
         \<and> prepare_v2 db zSql = (SQLITE_OK, pStmt, msg)
         \<and> readonly (case pStmt of None \<Rightarrow> null_stmt | Some s \<Rightarrow> s)
         \<and> statement_vtab_create db al argv =
             \<lparr>retval = SQLITE_OK,
              ppVtab = Some \<lparr>zErrMsg = None, sql = zSql,
                  num_inputs = sqlite3_bind_parameter_count (case pStmt of None \<Rightarrow> null_stmt | Some s \<Rightarrow> s),
                  num_outputs = sqlite3_column_count (case pStmt of None \<Rightarrow> null_stmt | Some s \<Rightarrow> s)\<rparr>,
              pzErr = None, live = [Vtab, Sql]\<rparr>))"
proof -
  have A: "statement_vtab_create db al argv = statement_vtab_create db al (take 4 argv)"
    by (rule create_ignores_extra)
  have B: "statement_vtab_create db al argv =
          (if err_alloc al
           then \<lparr>retval = SQLITE_MISUSE, ppVtab = None, pzErr = Some ''no statement provided'', live = []\<rparr>
           else \<lparr>retval = SQLITE_NOMEM, ppVtab = None, pzErr = None, live = []\<rparr>)"
    if "length argv < 4 \<or> length (argv ! 3) < 3"
    using that by (simp add: statement_vtab_create_def)
  have C: "statement_vtab_create db al argv =
          (if err_alloc al
           then \<lparr>retval = SQLITE_MISUSE, ppVtab = None, pzErr = Some ''statement must be parenthesized'',
                 live = []\<rparr>
           else \<lparr>retval = SQLITE_NOMEM, ppVtab = None, pzErr = None, live = []\<rparr>)"
    if "4 \<le> length argv \<and> 3 \<le> length (argv ! 3)
        \<and> (hd (argv ! 3) \<noteq> CHR ''('' \<or> last (argv ! 3) \<noteq> CHR '')'')"
  proof -
    have ne: "argv ! 3 \<noteq> []" using that by auto
    have "hd (argv ! 3) = argv ! 3 ! 0" "last (argv ! 3) = argv ! 3 ! (length (argv ! 3) - 1)"
      using ne by (simp_all add: hd_conv_nth last_conv_nth)
    with that show ?thesis by (simp add: statement_vtab_create_def)
  qed
  have D: "statement_vtab_create db al argv =
          (if err_alloc al
           then \<lparr>retval = SQLITE_ERROR, ppVtab = None, pzErr = Some ''Statement must be read only.'',
                 live = []\<rparr>
           else \<lparr>retval = SQLITE_NOMEM, ppVtab = None, pzErr = None, live = []\<rparr>)"
    if "4 \<le> length argv \<and> argv ! 3 = ''('' @ zSql @ '')'' \<and> zSql \<noteq> []
        \<and> vtab_alloc al \<and> sql_alloc al
        \<and> prepare_v2 db zSql = (SQLITE_OK, Some s, msg) \<and> \<not> readonly s" for zSql s msg
    using that create_not_readonly [of argv zSql al db s msg] by blast
  have E: "ppVtab (statement_vtab_create db al argv) = None \<and> live (statement_vtab_create db al argv) = []"
    if "retval (statement_vtab_create db al argv) \<noteq> SQLITE_OK"
    using that by (rule create_failed)
  have F: "\<exists>zSql pStmt msg.
           4 \<le> length argv \<and> argv ! 3 = ''('' @ zSql @ '')'' \<and> zSql \<noteq> []
         \<and> prepare_v2 db zSql = (SQLITE_OK, pStmt, msg)
         \<and> readonly (case pStmt of None \<Rightarrow> null_stmt | Some s \<Rightarrow> s)
         \<and> statement_vtab_create db al argv =
             \<lparr>retval = SQLITE_OK,
              ppVtab = Some \<lparr>zErrMsg = None, sql = zSql,
                  num_inputs = sqlite3_bind_parameter_count (case pStmt of None \<Rightarrow> null_stmt | Some s \<Rightarrow> s),
                  num_outputs = sqlite3_column_count (case pStmt of None \<Rightarrow> null_stmt | Some s \<Rightarrow> s)\<rparr>,
              pzErr = None, live = [Vtab, Sql]\<rparr>"
    if "retval (statement_vtab_create db al argv) = SQLITE_OK"
    using that by (rule create_ok)
  from A B C D E F show ?thesis by blast
qed

theorem create_contract_witness:
  "statement_vtab_create example_db all_ok [''statement'', ''main'', ''t''] =
     \<lparr>retval = SQLITE_MISUSE, ppVtab = None, pzErr = Some ''no statement provided'', live = []\<rparr>
   \<and> statement_vtab_create example_db all_ok [''statement'', ''main'', ''t'', ''()''] =
     \<lparr>retval = SQLITE_MISUSE, ppVtab = None, pzErr = Some ''no statement provided'', live = []\<rparr>
   \<and> statement_vtab_create example_db all_ok [''statement'', ''main'', ''t'', ''select 1 as one''] =
     \<lparr>retval = SQLITE_MISUSE, ppVtab = None, pzErr = Some ''statement must be parenthesized'', live = []\<rparr>
   \<and> statement_vtab_create example_db all_ok [''statement'', ''main'', ''t'', ''(delete from t)''] =
     \<lparr>retval = SQLITE_ERROR, ppVtab = None, pzErr = Some ''Statement must be read only.'', live = []\<rparr>
   \<and> statement_vtab_create example_db all_ok [''statement'', ''main'', ''t'', ''(delete from t)'', ''extra''] =
     \<lparr>retval = SQLITE_ERROR, ppVtab = None, pzErr = Some ''Statement must be read only.'', live = []\<rparr>
   \<and> retval (statement_vtab_create example_db all_ok [''statement'', ''main'', ''t'', ''(select)'']) = SQLITE_ERROR
   \<and> ppVtab (statement_vtab_create example_db all_ok [''statement'', ''main'', ''t'', ''(select)'']) = None
   \<and> live (statement_vtab_create example_db all_ok [''statement'', ''main'', ''t'', ''(select)'']) = []"
proof -
  let ?c = "statement_vtab_create example_db all_ok"
  have ok: "err_alloc all_ok" "vtab_alloc all_ok" "sql_alloc all_ok" by (simp_all add: all_ok_def)
  have w1: "?c [''statement'', ''main'', ''t''] =
     \<lparr>retval = SQLITE_MISUSE, ppVtab = None, pzErr = Some ''no statement provided'', live = []\<rparr>"
    using create_contract [of example_db all_ok "[''statement'', ''main'', ''t'']", THEN conjunct2, THEN conjunct1] ok(1)
    by simp
  have w2: "?c [''statement'', ''main'', ''t'', ''()''] =
     \<lparr>retval = SQLITE_MISUSE, ppVtab = None, pzErr = Some ''no statement provided'', live = []\<rparr>"
    using create_contract [of example_db all_ok "[''statement'', ''main'', ''t'', ''()'']", THEN conjunct2, THEN conjunct1] ok(1)
    by simp
  have w3: "?c [''statement'', ''main'', ''t'', ''select 1 as one''] =
     \<lparr>retval = SQLITE_MISUSE, ppVtab = None, pzErr = Some ''statement must be parenthesized'', live = []\<rparr>"
    using create_contract [of example_db all_ok "[''statement'', ''main'', ''t'', ''select 1 as one'']",
        THEN conjunct2, THEN conjunct2, THEN conjunct1] ok(1)
    by simp
  have p: "prepare_v2 example_db ''delete from t'' = (SQLITE_OK, Some delete_stmt, ''not an error'')"
    "\<not> readonly delete_stmt"
    by (simp_all add: example_db_def delete_stmt_def)
  have w4: "?c [''statement'', ''main'', ''t'', ''(delete from t)''] =
     \<lparr>retval = SQLITE_ERROR, ppVtab = None, pzErr = Some ''Statement must be read only.'', live = []\<rparr>"
    using create_contract [of example_db all_ok "[''statement'', ''main'', ''t'', ''(delete from t)'']",
        THEN conjunct2, THEN conjunct2, THEN conjunct2, THEN conjunct1, rule_format,
        of "''delete from t''" delete_stmt "''not an error''"] ok p
    by simp
  have w5: "?c [''statement'', ''main'', ''t'', ''(delete from t)'', ''extra''] =
     \<lparr>retval = SQLITE_ERROR, ppVtab = None, pzErr = Some ''Statement must be read only.'', live = []\<rparr>"
    using create_contract [of example_db all_ok "[''statement'', ''main'', ''t'', ''(delete from t)'', ''extra'']",
        THEN conjunct1] w4
    by simp
  have r6: "retval (?c [''statement'', ''main'', ''t'', ''(select)'']) = SQLITE_ERROR"
    by (simp add: statement_vtab_create_def example_db_def all_ok_def sqlite_error_exit_def error_exit_def)
  from create_contract [of example_db all_ok "[''statement'', ''main'', ''t'', ''(select)'']",
        THEN conjunct2, THEN conjunct2, THEN conjunct2, THEN conjunct2, THEN conjunct1] r6
  have w6: "ppVtab (?c [''statement'', ''main'', ''t'', ''(select)'']) = None"
    "live (?c [''statement'', ''main'', ''t'', ''(select)'']) = []"
    by simp_all
  from w1 w2 w3 w4 w5 r6 w6 show ?thesis by simp
qed

text \<open>
  A call with two arguments for the module, the second one arbitrary, creates the table.
\<close>

theorem create_extra_argument:
  "statement_vtab_create example_db all_ok [''statement'', ''main'', ''t'', ''(select 1 as one)'', ''extra''] =
     \<lparr>retval = SQLITE_OK,
      ppVtab = Some \<lparr>zErrMsg = None, sql = ''select 1 as one'', num_inputs = 0, num_outputs = 1\<rparr>,
      pzErr = None, live = [Vtab, Sql]\<rparr>"
  by (simp add: statement_vtab_create_def example_db_def all_ok_def one_stmt_def
      sqlite3_stmt_readonly_def build_create_statement_def sqlite3_column_count_def
      sqlite3_bind_parameter_count_def column_step_def sqlite3_column_name_def
      sqlite3_column_decltype_def word_sle_eq)

end
